theory Spec2Isabelle
  imports Main "HOL-Library.Char_ord" "HOL-Library.List_Lexorder" "HOL-Library.Multiset"
    "HOL-Library.AList"
begin

section \<open>Go strings\<close>

text \<open>
  A Go string is a byte sequence: \<^typ>\<open>string\<close>. The functions of package \<open>strings\<close> that
  the commands use are written out for ASCII text: \<open>TrimSpace\<close> removes the six ASCII
  white space bytes, \<open>ToLower\<close> and \<open>ToUpper\<close> map the 26 ASCII letters and \<open>EqualFold\<close>
  compares modulo ASCII case. Go additionally knows the white space and the case pairs of
  Unicode beyond ASCII; those are outside this development, but for the one place where
  the length of a lower-cased string matters (the prefix of the credential, below).
\<close>

definition isSpace :: "char \<Rightarrow> bool" where
  "isSpace c = (c \<in> set [CHR 0x09, CHR 0x0A, CHR 0x0B, CHR 0x0C, CHR 0x0D, CHR '' ''])"

definition TrimSpace :: "string \<Rightarrow> string" where
  "TrimSpace s = rev (dropWhile isSpace (rev (dropWhile isSpace s)))"

text \<open>The letter \<open>c\<close> of \<open>A..Z\<close> becomes \<open>c + ('a' - 'A')\<close>, that is, bit 5 is set.\<close>

definition lower_char :: "char \<Rightarrow> char" where
  "lower_char c = (if CHR ''A'' \<le> c \<and> c \<le> CHR ''Z''
     then (case c of Char b0 b1 b2 b3 b4 b5 b6 b7 \<Rightarrow> Char b0 b1 b2 b3 b4 True b6 b7) else c)"

definition upper_char :: "char \<Rightarrow> char" where
  "upper_char c = (if CHR ''a'' \<le> c \<and> c \<le> CHR ''z''
     then (case c of Char b0 b1 b2 b3 b4 b5 b6 b7 \<Rightarrow> Char b0 b1 b2 b3 b4 False b6 b7) else c)"

definition ToLower :: "string \<Rightarrow> string" where
  "ToLower s = map lower_char s"

definition ToUpper :: "string \<Rightarrow> string" where
  "ToUpper s = map upper_char s"

definition EqualFold :: "string \<Rightarrow> string \<Rightarrow> bool" where
  "EqualFold s t = (ToLower s = ToLower t)"

fun HasPrefix :: "string \<Rightarrow> string \<Rightarrow> bool" where
  "HasPrefix s [] = True"
| "HasPrefix [] (p # ps) = False"
| "HasPrefix (c # cs) (p # ps) = (c = p \<and> HasPrefix cs ps)"

fun Contains :: "string \<Rightarrow> string \<Rightarrow> bool" where
  "Contains [] sub = (sub = [])"
| "Contains (c # cs) sub = (HasPrefix (c # cs) sub \<or> Contains cs sub)"

text \<open>\<open>IndexByte s c\<close>: the index of the first \<open>c\<close> in \<open>s\<close>; Go's \<open>-1\<close> is \<open>None\<close>.\<close>

fun IndexByte :: "string \<Rightarrow> char \<Rightarrow> nat option" where
  "IndexByte [] c = None"
| "IndexByte (x # xs) c = (if x = c then Some 0 else map_option Suc (IndexByte xs c))"

text \<open>\<open>Split s sep\<close> for a separator of one byte: the pieces between the separators.\<close>

fun Split :: "string \<Rightarrow> char \<Rightarrow> string list" where
  "Split [] sep = [[]]"
| "Split (x # xs) sep =
     (if x = sep then [] # Split xs sep
      else (case Split xs sep of p # ps \<Rightarrow> (x # p) # ps | [] \<Rightarrow> [[x]]))"

section \<open>Errors and their classification\<close>

text \<open>
  A Go \<open>error\<close> of the keyword commands is its message, \<open>nil\<close> is \<open>None\<close>: the
  commands inspect an error only through \<open>err.Error()\<close>.
\<close>

type_synonym error = "string option"

text \<open>\<open>isCMRefreshError\<close> (cm_keywords.go, 807-818).\<close>

definition isCMRefreshError :: "error \<Rightarrow> bool" where
  "isCMRefreshError err =
     (case err of
        None \<Rightarrow> False
      | Some msg \<Rightarrow>
          (let s = ToLower msg in
           if Contains s ''no_user_owned_apps_found_code'' then False
           else Contains s ''internalerrorcode\":\"refresh'' \<or>
                Contains s ''user is not logged in'' \<or>
                (Contains s ''cm endpoint http 403'' \<and>
                 \<not> Contains s ''no_user_owned_apps_found_code'')))"

text \<open>\<open>isCMNoUserOwnedAppsError\<close> (cm_keywords.go, 820-825).\<close>

definition isCMNoUserOwnedAppsError :: "error \<Rightarrow> bool" where
  "isCMNoUserOwnedAppsError err =
     (case err of
        None \<Rightarrow> False
      | Some msg \<Rightarrow> Contains (ToLower msg) ''no_user_owned_apps_found_code'')"

section \<open>JSON values and Go's decoding into the response structs\<close>

text \<open>
  A response body is its bytes together with the JSON value that \<open>encoding/json\<close> reads
  from them (\<open>None\<close> when the bytes are not valid JSON). A number literal is either a
  plain integer literal or one with a fraction or an exponent.
\<close>

datatype json =
    JNull
  | JBool bool
  | JInt int
  | JFloat string
  | JString string
  | JArray "json list"
  | JObject "(string \<times> json) list"

record body =
  raw :: string
  parsed :: "json option"

text \<open>
  \<open>json.Unmarshal\<close> into a struct, as far as the commands depend on it; \<open>None\<close> is a
  non-nil error. JSON \<open>null\<close> leaves the destination as it is; a string field takes a
  JSON string, an \<open>int\<close> or \<open>int64\<close> field a plain integer literal within 64 bits; any other
  value is a type error. An object key selects the struct field whose JSON name equals it,
  else the first field whose name equals it ignoring case; other keys are skipped. Keys
  are processed in the order of the text, into the value decoded so far.
\<close>

definition dec_string :: "string \<Rightarrow> json \<Rightarrow> string option" where
  "dec_string cur j = (case j of JNull \<Rightarrow> Some cur | JString s \<Rightarrow> Some s | _ \<Rightarrow> None)"

definition int64_range :: "int \<Rightarrow> bool" where
  "int64_range n = (- (2 ^ 63) \<le> n \<and> n < 2 ^ 63)"

definition dec_int :: "int \<Rightarrow> json \<Rightarrow> int option" where
  "dec_int cur j =
     (case j of
        JNull \<Rightarrow> Some cur
      | JInt n \<Rightarrow> if int64_range n then Some n else None
      | _ \<Rightarrow> None)"

definition match_field :: "string list \<Rightarrow> string \<Rightarrow> string option" where
  "match_field names key =
     (if key \<in> set names then Some key else find (\<lambda>n. ToLower n = ToLower key) names)"

fun dec_fields ::
  "string list \<Rightarrow> (string \<Rightarrow> json \<Rightarrow> 's \<Rightarrow> 's option) \<Rightarrow> (string \<times> json) list \<Rightarrow> 's \<Rightarrow> 's option"
where
  "dec_fields names setf [] s = Some s"
| "dec_fields names setf ((k, v) # kvs) s =
     (case match_field names k of
        None \<Rightarrow> dec_fields names setf kvs s
      | Some n \<Rightarrow>
          (case setf n v s of
             None \<Rightarrow> None
           | Some s' \<Rightarrow> dec_fields names setf kvs s'))"

definition dec_struct ::
  "string list \<Rightarrow> (string \<Rightarrow> json \<Rightarrow> 's \<Rightarrow> 's option) \<Rightarrow> 's \<Rightarrow> json \<Rightarrow> 's option"
where
  "dec_struct names setf cur j =
     (case j of
        JNull \<Rightarrow> Some cur
      | JObject kvs \<Rightarrow> dec_fields names setf kvs cur
      | _ \<Rightarrow> None)"

text \<open>
  An array into a slice: element \<open>i\<close> is decoded into the slice's element \<open>i\<close> where
  the slice already has one, else into a zero value; the slice ends as long as the array.
\<close>

fun dec_elems :: "('a \<Rightarrow> json \<Rightarrow> 'a option) \<Rightarrow> 'a \<Rightarrow> 'a list \<Rightarrow> json list \<Rightarrow> 'a list option" where
  "dec_elems f z cur [] = Some []"
| "dec_elems f z cur (v # vs) =
     (case f (case cur of [] \<Rightarrow> z | c # _ \<Rightarrow> c) v of
        None \<Rightarrow> None
      | Some x \<Rightarrow> map_option ((#) x) (dec_elems f z (tl cur) vs))"

definition dec_slice :: "('a \<Rightarrow> json \<Rightarrow> 'a option) \<Rightarrow> 'a \<Rightarrow> 'a list \<Rightarrow> json \<Rightarrow> 'a list option" where
  "dec_slice f z cur j =
     (case j of
        JNull \<Rightarrow> Some []
      | JArray vs \<Rightarrow> dec_elems f z cur vs
      | _ \<Rightarrow> None)"

subsection \<open>The structs of cm_keywords.go (lines 23-64)\<close>

record cmKeywordItem =
  ID :: int
  Name :: string
  Popularity :: int
  MatchType :: string

record cmSuccessResponse =
  RequestID :: string
  Status :: string
  Data :: "cmKeywordItem list"

record cmCampaignItem =
  CampaignID :: int
  CampaignName :: string
  AdamID :: int

record cmCampaignFindResponse =
  FindRequestID :: string
  FindStatus :: string
  FindData :: "cmCampaignItem list"

record cmErrorResponse =
  ErrorMsg :: string
  ErrorCode :: string
  InternalErrorCode :: string

record cmNestedError =
  MessageCode :: string
  Message :: string
  ErrorField :: string

record cmErrorNestedResponse =
  NestedRequestID :: string
  NestedStatus :: string
  Errors :: "cmNestedError list"

definition zero_cmKeywordItem :: cmKeywordItem where
  "zero_cmKeywordItem = \<lparr>ID = 0, Name = [], Popularity = 0, MatchType = []\<rparr>"

definition set_cmKeywordItem :: "string \<Rightarrow> json \<Rightarrow> cmKeywordItem \<Rightarrow> cmKeywordItem option" where
  "set_cmKeywordItem n v it =
     (if n = ''id'' then map_option (\<lambda>x. it\<lparr>ID := x\<rparr>) (dec_int (ID it) v)
      else if n = ''name'' then map_option (\<lambda>x. it\<lparr>Name := x\<rparr>) (dec_string (Name it) v)
      else if n = ''popularity'' then
        map_option (\<lambda>x. it\<lparr>Popularity := x\<rparr>) (dec_int (Popularity it) v)
      else map_option (\<lambda>x. it\<lparr>MatchType := x\<rparr>) (dec_string (MatchType it) v))"

definition dec_cmKeywordItem :: "cmKeywordItem \<Rightarrow> json \<Rightarrow> cmKeywordItem option" where
  "dec_cmKeywordItem =
     dec_struct [''id'', ''name'', ''popularity'', ''matchType''] set_cmKeywordItem"

definition zero_cmSuccessResponse :: cmSuccessResponse where
  "zero_cmSuccessResponse = \<lparr>RequestID = [], Status = [], Data = []\<rparr>"

definition set_cmSuccessResponse ::
  "string \<Rightarrow> json \<Rightarrow> cmSuccessResponse \<Rightarrow> cmSuccessResponse option"
where
  "set_cmSuccessResponse n v r =
     (if n = ''requestID'' then
        map_option (\<lambda>x. r\<lparr>RequestID := x\<rparr>) (dec_string (RequestID r) v)
      else if n = ''status'' then map_option (\<lambda>x. r\<lparr>Status := x\<rparr>) (dec_string (Status r) v)
      else map_option (\<lambda>x. r\<lparr>Data := x\<rparr>)
             (dec_slice dec_cmKeywordItem zero_cmKeywordItem (Data r) v))"

text \<open>\<open>json.Unmarshal(body, &ok)\<close> for \<open>var ok cmSuccessResponse\<close>.\<close>

definition unmarshal_cmSuccessResponse :: "body \<Rightarrow> cmSuccessResponse option" where
  "unmarshal_cmSuccessResponse b =
     (case parsed b of
        None \<Rightarrow> None
      | Some j \<Rightarrow>
          dec_struct [''requestID'', ''status'', ''data''] set_cmSuccessResponse
            zero_cmSuccessResponse j)"

definition zero_cmCampaignItem :: cmCampaignItem where
  "zero_cmCampaignItem = \<lparr>CampaignID = 0, CampaignName = [], AdamID = 0\<rparr>"

definition set_cmCampaignItem :: "string \<Rightarrow> json \<Rightarrow> cmCampaignItem \<Rightarrow> cmCampaignItem option" where
  "set_cmCampaignItem n v it =
     (if n = ''id'' then map_option (\<lambda>x. it\<lparr>CampaignID := x\<rparr>) (dec_int (CampaignID it) v)
      else if n = ''name'' then
        map_option (\<lambda>x. it\<lparr>CampaignName := x\<rparr>) (dec_string (CampaignName it) v)
      else map_option (\<lambda>x. it\<lparr>AdamID := x\<rparr>) (dec_int (AdamID it) v))"

definition dec_cmCampaignItem :: "cmCampaignItem \<Rightarrow> json \<Rightarrow> cmCampaignItem option" where
  "dec_cmCampaignItem = dec_struct [''id'', ''name'', ''adamId''] set_cmCampaignItem"

definition zero_cmCampaignFindResponse :: cmCampaignFindResponse where
  "zero_cmCampaignFindResponse = \<lparr>FindRequestID = [], FindStatus = [], FindData = []\<rparr>"

definition set_cmCampaignFindResponse ::
  "string \<Rightarrow> json \<Rightarrow> cmCampaignFindResponse \<Rightarrow> cmCampaignFindResponse option"
where
  "set_cmCampaignFindResponse n v r =
     (if n = ''requestID'' then
        map_option (\<lambda>x. r\<lparr>FindRequestID := x\<rparr>) (dec_string (FindRequestID r) v)
      else if n = ''status'' then
        map_option (\<lambda>x. r\<lparr>FindStatus := x\<rparr>) (dec_string (FindStatus r) v)
      else map_option (\<lambda>x. r\<lparr>FindData := x\<rparr>)
             (dec_slice dec_cmCampaignItem zero_cmCampaignItem (FindData r) v))"

definition unmarshal_cmCampaignFindResponse :: "body \<Rightarrow> cmCampaignFindResponse option" where
  "unmarshal_cmCampaignFindResponse b =
     (case parsed b of
        None \<Rightarrow> None
      | Some j \<Rightarrow>
          dec_struct [''requestID'', ''status'', ''data''] set_cmCampaignFindResponse
            zero_cmCampaignFindResponse j)"

definition zero_cmErrorResponse :: cmErrorResponse where
  "zero_cmErrorResponse = \<lparr>ErrorMsg = [], ErrorCode = [], InternalErrorCode = []\<rparr>"

definition set_cmErrorResponse :: "string \<Rightarrow> json \<Rightarrow> cmErrorResponse \<Rightarrow> cmErrorResponse option" where
  "set_cmErrorResponse n v r =
     (if n = ''errorMsg'' then map_option (\<lambda>x. r\<lparr>ErrorMsg := x\<rparr>) (dec_string (ErrorMsg r) v)
      else if n = ''errorCode'' then
        map_option (\<lambda>x. r\<lparr>ErrorCode := x\<rparr>) (dec_string (ErrorCode r) v)
      else map_option (\<lambda>x. r\<lparr>InternalErrorCode := x\<rparr>)
             (dec_string (InternalErrorCode r) v))"

definition unmarshal_cmErrorResponse :: "body \<Rightarrow> cmErrorResponse option" where
  "unmarshal_cmErrorResponse b =
     (case parsed b of
        None \<Rightarrow> None
      | Some j \<Rightarrow>
          dec_struct [''errorMsg'', ''errorCode'', ''internalErrorCode''] set_cmErrorResponse
            zero_cmErrorResponse j)"

definition zero_cmNestedError :: cmNestedError where
  "zero_cmNestedError = \<lparr>MessageCode = [], Message = [], ErrorField = []\<rparr>"

definition set_cmNestedError :: "string \<Rightarrow> json \<Rightarrow> cmNestedError \<Rightarrow> cmNestedError option" where
  "set_cmNestedError n v e =
     (if n = ''messageCode'' then
        map_option (\<lambda>x. e\<lparr>MessageCode := x\<rparr>) (dec_string (MessageCode e) v)
      else if n = ''message'' then map_option (\<lambda>x. e\<lparr>Message := x\<rparr>) (dec_string (Message e) v)
      else map_option (\<lambda>x. e\<lparr>ErrorField := x\<rparr>) (dec_string (ErrorField e) v))"

definition dec_cmNestedError :: "cmNestedError \<Rightarrow> json \<Rightarrow> cmNestedError option" where
  "dec_cmNestedError = dec_struct [''messageCode'', ''message'', ''field''] set_cmNestedError"

text \<open>The inner struct \<open>Error\<close> of \<open>cmErrorNestedResponse\<close> has the one field \<open>errors\<close>.\<close>

definition set_cmErrorNested_inner ::
  "string \<Rightarrow> json \<Rightarrow> cmNestedError list \<Rightarrow> cmNestedError list option"
where
  "set_cmErrorNested_inner n v es = dec_slice dec_cmNestedError zero_cmNestedError es v"

definition zero_cmErrorNestedResponse :: cmErrorNestedResponse where
  "zero_cmErrorNestedResponse = \<lparr>NestedRequestID = [], NestedStatus = [], Errors = []\<rparr>"

definition set_cmErrorNestedResponse ::
  "string \<Rightarrow> json \<Rightarrow> cmErrorNestedResponse \<Rightarrow> cmErrorNestedResponse option"
where
  "set_cmErrorNestedResponse n v r =
     (if n = ''requestID'' then
        map_option (\<lambda>x. r\<lparr>NestedRequestID := x\<rparr>) (dec_string (NestedRequestID r) v)
      else if n = ''status'' then
        map_option (\<lambda>x. r\<lparr>NestedStatus := x\<rparr>) (dec_string (NestedStatus r) v)
      else map_option (\<lambda>x. r\<lparr>Errors := x\<rparr>)
             (dec_struct [''errors''] set_cmErrorNested_inner (Errors r) v))"

definition unmarshal_cmErrorNestedResponse :: "body \<Rightarrow> cmErrorNestedResponse option" where
  "unmarshal_cmErrorNestedResponse b =
     (case parsed b of
        None \<Rightarrow> None
      | Some j \<Rightarrow>
          dec_struct [''requestID'', ''status'', ''error''] set_cmErrorNestedResponse
            zero_cmErrorNestedResponse j)"

section \<open>The response classifier\<close>

text \<open>
  The second, third and last attempt of \<open>parseCMKeywordData\<close> (588-599) and of
  \<open>parseCMCampaignData\<close> (568-579), which are the same text: the flat error envelope, the
  nested error envelope, the unexpected response. The result is the error's message.
\<close>

definition cmErrorNestedOf :: "string \<Rightarrow> body \<Rightarrow> string" where
  "cmErrorNestedOf endpoint b =
     (case unmarshal_cmErrorNestedResponse b of
        Some n \<Rightarrow>
          (case Errors n of
             first # _ \<Rightarrow>
               ''cm '' @ endpoint @ '' error ('' @ TrimSpace (MessageCode first) @ ''): '' @
               TrimSpace (Message first)
           | [] \<Rightarrow> ''cm '' @ endpoint @ '': unexpected response: '' @ TrimSpace (raw b))
      | None \<Rightarrow> ''cm '' @ endpoint @ '': unexpected response: '' @ TrimSpace (raw b))"

definition cmErrorOf :: "string \<Rightarrow> body \<Rightarrow> string" where
  "cmErrorOf endpoint b =
     (case unmarshal_cmErrorResponse b of
        Some er \<Rightarrow>
          if ErrorMsg er \<noteq> [] \<or> ErrorCode er \<noteq> [] \<or> InternalErrorCode er \<noteq> [] then
            ''cm '' @ endpoint @ '' error ('' @ TrimSpace (ErrorCode er) @ ''/'' @
            TrimSpace (InternalErrorCode er) @ ''): '' @ TrimSpace (ErrorMsg er)
          else cmErrorNestedOf endpoint b
      | None \<Rightarrow> cmErrorNestedOf endpoint b)"

text \<open>\<open>parseCMKeywordData\<close> (582-600): \<open>Inl\<close> is the error, \<open>Inr\<close> the items.\<close>

definition parseCMKeywordData :: "string \<Rightarrow> body \<Rightarrow> string + cmKeywordItem list" where
  "parseCMKeywordData endpoint b =
     (case unmarshal_cmSuccessResponse b of
        Some ok \<Rightarrow>
          if Status ok = [] \<or> EqualFold (Status ok) ''success'' then Inr (Data ok)
          else Inl (cmErrorOf endpoint b)
      | None \<Rightarrow> Inl (cmErrorOf endpoint b))"

text \<open>\<open>parseCMCampaignData\<close> (562-580).\<close>

definition parseCMCampaignData :: "string \<Rightarrow> body \<Rightarrow> string + cmCampaignItem list" where
  "parseCMCampaignData endpoint b =
     (case unmarshal_cmCampaignFindResponse b of
        Some ok \<Rightarrow>
          if FindStatus ok = [] \<or> EqualFold (FindStatus ok) ''success'' then Inr (FindData ok)
          else Inl (cmErrorOf endpoint b)
      | None \<Rightarrow> Inl (cmErrorOf endpoint b))"

text \<open>
  The JSON text of a success envelope, to state what the classifier returns on one: the
  optional \<open>requestID\<close> and \<open>status\<close>, and the items under \<open>data\<close>.
\<close>

definition json_of_cmKeywordItem :: "cmKeywordItem \<Rightarrow> json" where
  "json_of_cmKeywordItem it =
     JObject [(''id'', JInt (ID it)), (''name'', JString (Name it)),
              (''popularity'', JInt (Popularity it)), (''matchType'', JString (MatchType it))]"

definition success_envelope :: "string option \<Rightarrow> string option \<Rightarrow> cmKeywordItem list \<Rightarrow> json" where
  "success_envelope rid st items =
     JObject ((case rid of None \<Rightarrow> [] | Some r \<Rightarrow> [(''requestID'', JString r)]) @
              (case st of None \<Rightarrow> [] | Some s \<Rightarrow> [(''status'', JString s)]) @
              [(''data'', JArray (map json_of_cmKeywordItem items))])"

section \<open>The authenticated API client\<close>

text \<open>
  \<open>http.Header.Set\<close> stores a value under the canonical form of the name
  (\<open>textproto.CanonicalMIMEHeaderKey\<close>): a name made of token bytes gets its first letter
  and every letter after a hyphen in upper case and the others in lower case; any other
  name is kept as it is. A header is the list of its names with their values.
\<close>

definition validHeaderFieldByte :: "char \<Rightarrow> bool" where
  "validHeaderFieldByte c =
     ((CHR ''a'' \<le> c \<and> c \<le> CHR ''z'') \<or> (CHR ''A'' \<le> c \<and> c \<le> CHR ''Z'') \<or>
      (CHR ''0'' \<le> c \<and> c \<le> CHR ''9'') \<or>
      c \<in> set [CHR ''!'', CHR ''#'', CHR ''$'', CHR ''%'', CHR ''&'', CHR 0x27, CHR ''*'',
                 CHR ''+'', CHR ''-'', CHR ''.'', CHR ''^'', CHR ''_'', CHR 0x60, CHR ''|'',
                 CHR ''~''])"

fun canonical_bytes :: "bool \<Rightarrow> string \<Rightarrow> string" where
  "canonical_bytes upper [] = []"
| "canonical_bytes upper (c # cs) =
     (let c' = (if upper then upper_char c else lower_char c)
      in c' # canonical_bytes (c' = CHR ''-'') cs)"

definition CanonicalMIMEHeaderKey :: "string \<Rightarrow> string" where
  "CanonicalMIMEHeaderKey s =
     (if list_all validHeaderFieldByte s then canonical_bytes True s else s)"

type_synonym header = "(string \<times> string) list"

definition Header_Set :: "header \<Rightarrow> string \<Rightarrow> string \<Rightarrow> header" where
  "Header_Set h k v = AList.update (CanonicalMIMEHeaderKey k) v h"

definition Header_Get :: "header \<Rightarrow> string \<Rightarrow> string option" where
  "Header_Get h k = map_of h (CanonicalMIMEHeaderKey k)"

text \<open>\<open>cookieValue\<close> (696-713): the loop over the parts of the cookie header.\<close>

fun cookieValue_parts :: "string \<Rightarrow> string list \<Rightarrow> string" where
  "cookieValue_parts target [] = []"
| "cookieValue_parts target (part # rest) =
     (let p = TrimSpace part in
      if p = [] then cookieValue_parts target rest
      else (case IndexByte p CHR ''='' of
              None \<Rightarrow> cookieValue_parts target rest
            | Some i \<Rightarrow>
                if i \<le> 0 then cookieValue_parts target rest
                else if ToLower (TrimSpace (take i p)) = target then TrimSpace (drop (i + 1) p)
                else cookieValue_parts target rest))"

definition cookieValue :: "string \<Rightarrow> string \<Rightarrow> string" where
  "cookieValue cookieHeader key =
     cookieValue_parts (ToLower (TrimSpace key)) (Split cookieHeader CHR '';'')"

text \<open>
  \<open>hasHeaderCaseInsensitive\<close> (715-723). The caller's extra headers are a Go map: here
  the list of its entries in the order in which \<open>range\<close> visits them.
\<close>

definition hasHeaderCaseInsensitive :: "(string \<times> string) list \<Rightarrow> string \<Rightarrow> bool" where
  "hasHeaderCaseInsensitive headers name =
     list_ex (\<lambda>(k, v). ToLower (TrimSpace k) = ToLower (TrimSpace name)) headers"

text \<open>
  The header of a request: the fixed headers (612-617, 661-667; \<open>Content-Type\<close> only on
  a POST), the anti-forgery token (619-623, 669-673), then the caller's extra headers
  (624-626, 675-677).
\<close>

definition userAgent :: string where
  "userAgent = ''Mozilla/5.0 (Macintosh; Intel Mac OS X 10_15_7) AppleWebKit/537.36 (KHTML, like Gecko) Chrome/122.0.0.0 Safari/537.36''"

definition fixedHeaders :: "bool \<Rightarrow> string \<Rightarrow> header" where
  "fixedHeaders post cookie =
     (let h1 = Header_Set [] ''Accept'' ''application/json'';
          h2 = (if post then Header_Set h1 ''Content-Type'' ''application/json'' else h1);
          h3 = Header_Set h2 ''Cookie'' cookie;
          h4 = Header_Set h3 ''Origin'' ''https://app-ads.apple.com'';
          h5 = Header_Set h4 ''Referer'' ''https://app-ads.apple.com/'';
          h6 = Header_Set h5 ''X-Requested-With'' ''XMLHttpRequest''
      in Header_Set h6 ''User-Agent'' userAgent)"

definition withToken :: "header \<Rightarrow> string \<Rightarrow> (string \<times> string) list \<Rightarrow> header" where
  "withToken h cookie extraHeaders =
     (let token = cookieValue cookie ''XSRF-TOKEN-CM'' in
      if token \<noteq> [] then
        (if \<not> hasHeaderCaseInsensitive extraHeaders ''X-XSRF-TOKEN-CM''
         then Header_Set h ''X-XSRF-TOKEN-CM'' token else h)
      else h)"

definition withExtraHeaders :: "header \<Rightarrow> (string \<times> string) list \<Rightarrow> header" where
  "withExtraHeaders h extraHeaders = fold (\<lambda>(k, v) h'. Header_Set h' k v) extraHeaders h"

definition requestHeader :: "bool \<Rightarrow> string \<Rightarrow> (string \<times> string) list \<Rightarrow> header" where
  "requestHeader post cookie extraHeaders =
     withExtraHeaders (withToken (fixedHeaders post cookie) cookie extraHeaders) extraHeaders"

text \<open>
  A request as the client hands it to the transport: the query is the list of its
  parameters before URL encoding, the payload the JSON value that is marshalled.
\<close>

record request =
  Method :: string
  URL :: string
  Query :: "(string \<times> string) list"
  Header :: header
  Payload :: "json option"

datatype http_result = TransportError string | Response int body

text \<open>
  What the command does to the outside, in order. \<open>EvFallback\<close> records the assignment
  \<open>attemptedOwnedAdamFallback = true\<close>.
\<close>

datatype event = EvHttp request | EvRefresh | EvFallback

text \<open>
  The outside: the transport (\<open>client.Do\<close> and \<open>io.ReadAll\<close>) and the interactive
  cookie refresh (\<open>refreshCMCookieFromFlags\<close>; \<open>Inl\<close> is its error). Either answers as a
  function of all that happened before; deadlines and cancellation are failures of the
  transport.
\<close>

record env =
  http :: "event list \<Rightarrow> request \<Rightarrow> http_result"
  refresh :: "event list \<Rightarrow> string + string"

text \<open>\<open>%d\<close> of \<open>fmt\<close> and \<open>strconv.FormatInt(n, 10)\<close>.\<close>

function itoa_nat :: "nat \<Rightarrow> string" where
  "itoa_nat n =
     (if n < 10 then [''0123456789'' ! n]
      else itoa_nat (n div 10) @ [''0123456789'' ! (n mod 10)])"
  by pat_completeness auto
termination
  by (relation "measure id") auto

definition itoa :: "int \<Rightarrow> string" where
  "itoa i = (if i < 0 then CHR ''-'' # itoa_nat (nat (- i)) else itoa_nat (nat i))"

definition cmAPIBase :: string where
  "cmAPIBase = ''https://app-ads.apple.com/cm/api/v2''"

text \<open>The check of the status code (639-642, 690-693).\<close>

definition checkStatus :: "http_result \<Rightarrow> string + body" where
  "checkStatus res =
     (case res of
        TransportError e \<Rightarrow> Inl e
      | Response code b \<Rightarrow>
          if code < 200 \<or> code \<ge> 300 then
            Inl (''cm endpoint HTTP '' @ itoa code @ '': '' @ TrimSpace (raw b))
          else Inr b)"

text \<open>\<open>cmGetJSON\<close> (602-643) and \<open>cmPostJSON\<close> (645-694).\<close>

definition cmGetJSON ::
  "env \<Rightarrow> event list \<Rightarrow> string \<Rightarrow> string \<Rightarrow> (string \<times> string) list \<Rightarrow>
   (string + body) \<times> event list"
where
  "cmGetJSON E tr url cookie extraHeaders =
     (let req = \<lparr>Method = ''GET'', URL = url, Query = [],
                 Header = requestHeader False cookie extraHeaders, Payload = None\<rparr>
      in (checkStatus (http E tr req), tr @ [EvHttp req]))"

definition cmPostJSON ::
  "env \<Rightarrow> event list \<Rightarrow> string \<Rightarrow> (string \<times> string) list \<Rightarrow> json \<Rightarrow> string \<Rightarrow>
   (string \<times> string) list \<Rightarrow> (string + body) \<times> event list"
where
  "cmPostJSON E tr url query payload cookie extraHeaders =
     (let req = \<lparr>Method = ''POST'', URL = url, Query = query,
                 Header = requestHeader True cookie extraHeaders, Payload = Some payload\<rparr>
      in (checkStatus (http E tr req), tr @ [EvHttp req]))"

text \<open>\<open>cmKeywordPopularities\<close> (480-503) and \<open>cmKeywordRecommendation\<close> (505-528).\<close>

definition cmKeywordPopularities ::
  "env \<Rightarrow> event list \<Rightarrow> string \<Rightarrow> (string \<times> string) list \<Rightarrow> int \<Rightarrow> string \<Rightarrow> string list \<Rightarrow>
   (string + cmKeywordItem list) \<times> event list"
where
  "cmKeywordPopularities E tr cookie extraHeaders adamID storefront terms =
     (case cmPostJSON E tr (cmAPIBase @ ''/keywords/popularities'') [(''adamId'', itoa adamID)]
             (JObject [(''storefronts'', JArray [JString (ToUpper (TrimSpace storefront))]),
                       (''terms'', JArray (map JString terms))])
             cookie extraHeaders of
        (Inl e, tr') \<Rightarrow> (Inl e, tr')
      | (Inr b, tr') \<Rightarrow> (parseCMKeywordData ''popularities'' b, tr'))"

definition cmKeywordRecommendation ::
  "env \<Rightarrow> event list \<Rightarrow> string \<Rightarrow> (string \<times> string) list \<Rightarrow> int \<Rightarrow> string \<Rightarrow> string \<Rightarrow>
   (string + cmKeywordItem list) \<times> event list"
where
  "cmKeywordRecommendation E tr cookie extraHeaders adamID storefront text =
     (case cmPostJSON E tr (cmAPIBase @ ''/keywords/recommendation'')
             [(''adamId'', itoa adamID), (''text'', text)]
             (JObject [(''storefronts'', JArray [JString (ToUpper (TrimSpace storefront))])])
             cookie extraHeaders of
        (Inl e, tr') \<Rightarrow> (Inl e, tr')
      | (Inr b, tr') \<Rightarrow> (parseCMKeywordData ''recommendation'' b, tr'))"

text \<open>\<open>cmCampaignsFind\<close> (550-560) and \<open>cmDiscoverOwnedAdamID\<close> (530-548).\<close>

definition cmCampaignsFind ::
  "env \<Rightarrow> event list \<Rightarrow> string \<Rightarrow> (string \<times> string) list \<Rightarrow>
   (string + cmCampaignItem list) \<times> event list"
where
  "cmCampaignsFind E tr cookie extraHeaders =
     (case cmGetJSON E tr (cmAPIBase @ ''/campaigns/find'') cookie extraHeaders of
        (Inl e, tr') \<Rightarrow> (Inl e, tr')
      | (Inr b, tr') \<Rightarrow> (parseCMCampaignData ''campaigns/find'' b, tr'))"

fun firstOwnedCampaign :: "int list \<Rightarrow> cmCampaignItem list \<Rightarrow> (int \<times> string) option" where
  "firstOwnedCampaign seen [] = None"
| "firstOwnedCampaign seen (it # its) =
     (if AdamID it \<le> 0 \<or> AdamID it \<in> set seen then firstOwnedCampaign seen its
      else Some (AdamID it, TrimSpace (CampaignName it)))"

definition cmDiscoverOwnedAdamID ::
  "env \<Rightarrow> event list \<Rightarrow> string \<Rightarrow> (string \<times> string) list \<Rightarrow>
   (string + int \<times> string) \<times> event list"
where
  "cmDiscoverOwnedAdamID E tr cookie extraHeaders =
     (case cmCampaignsFind E tr cookie extraHeaders of
        (Inl e, tr') \<Rightarrow> (Inl e, tr')
      | (Inr campaigns, tr') \<Rightarrow>
          (case firstOwnedCampaign [] campaigns of
             Some found \<Rightarrow> (Inr found, tr')
           | None \<Rightarrow> (Inl ''no owned adam-id found in Apple Ads campaigns'', tr')))"

section \<open>Output rows\<close>

record asoPopscoreRow =
  PopKeyword :: string
  PopCountry :: string
  PopPopularity :: "int option"
  PopMatchType :: "string option"
  PopFound :: bool
  PopSource :: string

record asoRecommendRow =
  Country :: string
  Seed :: string
  Term :: string
  RowPopularity :: "int option"
  RowMatchType :: "string option"
  Rank :: int
  Source :: string

definition normKeyword :: "string \<Rightarrow> string" where
  "normKeyword s = ToLower (TrimSpace s)"

text \<open>The rows of one country in \<open>newASOPopscoreCmd\<close> (158-180).\<close>

definition byName :: "cmKeywordItem list \<Rightarrow> string \<Rightarrow> cmKeywordItem option" where
  "byName respItems = fold (\<lambda>it m. m(normKeyword (Name it) \<mapsto> it)) respItems Map.empty"

definition matchTypePtr :: "cmKeywordItem \<Rightarrow> string option" where
  "matchTypePtr it = (let mt = TrimSpace (MatchType it) in if mt \<noteq> [] then Some mt else None)"

definition popscoreRows :: "string list \<Rightarrow> string \<Rightarrow> cmKeywordItem list \<Rightarrow> asoPopscoreRow list" where
  "popscoreRows keywords cc respItems =
     map (\<lambda>kw.
           (case byName respItems (normKeyword kw) of
              Some it \<Rightarrow>
                \<lparr>PopKeyword = kw, PopCountry = cc, PopPopularity = Some (Popularity it),
                 PopMatchType = matchTypePtr it, PopFound = True, PopSource = ''cm_api_v2''\<rparr>
            | None \<Rightarrow>
                \<lparr>PopKeyword = kw, PopCountry = cc, PopPopularity = None,
                 PopMatchType = None, PopFound = False, PopSource = ''cm_api_v2''\<rparr>))
         keywords"

text \<open>
  The rows of one country in \<open>newASORecommendCmd\<close> (270-306). \<open>recommendLess\<close> is the
  function handed to \<open>sort.Slice\<close> (281-284); strings compare bytewise. \<open>sort.Slice\<close> is
  not stable: all that is known of its result is \<open>sortsBy\<close>, a rearrangement of the slice
  in which no element is less than an earlier one. The sort is therefore a parameter
  \<open>srt\<close> of the rows.
\<close>

definition recommendLess :: "cmKeywordItem \<Rightarrow> cmKeywordItem \<Rightarrow> bool" where
  "recommendLess a b =
     (if Popularity a \<noteq> Popularity b then Popularity a > Popularity b
      else ToLower (Name a) < ToLower (Name b))"

definition sortsBy :: "('a \<Rightarrow> 'a \<Rightarrow> bool) \<Rightarrow> ('a list \<Rightarrow> 'a list) \<Rightarrow> bool" where
  "sortsBy lt srt =
     (\<forall>xs. mset (srt xs) = mset xs \<and> sorted_wrt (\<lambda>a b. \<not> lt b a) (srt xs))"

definition keptItems :: "int \<Rightarrow> cmKeywordItem list \<Rightarrow> cmKeywordItem list" where
  "keptItems minPop items =
     filter (\<lambda>it. \<not> Popularity it < minPop \<and> TrimSpace (Name it) \<noteq> []) items"

definition truncateTo :: "int \<Rightarrow> 'a list \<Rightarrow> 'a list" where
  "truncateTo limit kept = (if int (length kept) > limit then take (nat limit) kept else kept)"

definition recommendRow :: "string \<Rightarrow> string \<Rightarrow> nat \<Rightarrow> cmKeywordItem \<Rightarrow> asoRecommendRow" where
  "recommendRow cc seed i it =
     \<lparr>Country = cc, Seed = seed, Term = Name it, RowPopularity = Some (Popularity it),
      RowMatchType = matchTypePtr it, Rank = int i + 1, Source = ''cm_api_v2''\<rparr>"

definition recommendRows ::
  "(cmKeywordItem list \<Rightarrow> cmKeywordItem list) \<Rightarrow> string \<Rightarrow> int \<Rightarrow> int \<Rightarrow> string \<Rightarrow>
   cmKeywordItem list \<Rightarrow> asoRecommendRow list"
where
  "recommendRows srt seed limit minPop cc items =
     (let kept = truncateTo limit (srt (keptItems minPop items))
      in map (\<lambda>(i, it). recommendRow cc seed i it) (enumerate 0 kept))"

text \<open>The limit of the flag as the loop uses it (229-232).\<close>

definition effectiveLimit :: "int \<Rightarrow> int" where
  "effectiveLimit limit = (if limit \<le> 0 then 50 else limit)"

text \<open>An insertion sort by \<open>recommendLess\<close>: one sort that \<open>sort.Slice\<close> may be.\<close>

fun insertItem :: "cmKeywordItem \<Rightarrow> cmKeywordItem list \<Rightarrow> cmKeywordItem list" where
  "insertItem x [] = [x]"
| "insertItem x (y # ys) = (if recommendLess y x then y # insertItem x ys else x # y # ys)"

definition insertionSort :: "cmKeywordItem list \<Rightarrow> cmKeywordItem list" where
  "insertionSort xs = foldr insertItem xs []"

section \<open>The retry loop over the countries\<close>

text \<open>
  The variables that the loop of \<open>newASOPopscoreCmd\<close> (129-181) and of
  \<open>newASORecommendCmd\<close> (241-307) reads and writes: \<open>cookie\<close>, \<open>adamID\<close> (the closure
  that calls the API reads it at each call), \<open>attemptedOwnedAdamFallback\<close>, \<open>out\<close>, and
  the trace of what has been done to the outside.
\<close>

record 'row loop_state =
  ls_cookie :: string
  ls_adamID :: int
  ls_attempted :: bool
  ls_out :: "'row list"
  ls_trace :: "event list"

text \<open>
  The closures \<open>callPopularities\<close> (123-127) and \<open>callRecommendations\<close> (235-239):
  from the trace, the cookie, the current \<open>adamID\<close> and the country.
\<close>

type_synonym api_call =
  "event list \<Rightarrow> string \<Rightarrow> int \<Rightarrow> string \<Rightarrow> (string + cmKeywordItem list) \<times> event list"

definition callPopularities :: "env \<Rightarrow> (string \<times> string) list \<Rightarrow> string list \<Rightarrow> api_call" where
  "callPopularities E extraHeaders keywords tr cookie adamID country =
     cmKeywordPopularities E tr cookie extraHeaders adamID country keywords"

definition callRecommendations :: "env \<Rightarrow> (string \<times> string) list \<Rightarrow> string \<Rightarrow> api_call" where
  "callRecommendations E extraHeaders seed tr cookie adamID country =
     cmKeywordRecommendation E tr cookie extraHeaders adamID country seed"

text \<open>
  \<open>discoverOwnedAdamIDWithRefresh\<close> (444-478): \<open>Inr\<close> is the owned id with the cookie
  in use afterwards.
\<close>

definition discoverOwnedAdamIDWithRefresh ::
  "env \<Rightarrow> event list \<Rightarrow> string \<Rightarrow> (string \<times> string) list \<Rightarrow> bool \<Rightarrow>
   (string + int \<times> string) \<times> event list"
where
  "discoverOwnedAdamIDWithRefresh E tr cookie extraHeaders autoCookie =
     (case cmDiscoverOwnedAdamID E tr cookie extraHeaders of
        (Inr (adamID, campaignName), t1) \<Rightarrow> (Inr (adamID, cookie), t1)
      | (Inl e, t1) \<Rightarrow>
          if autoCookie \<and> isCMRefreshError (Some e) then
            (case refresh E t1 of
               Inl re \<Rightarrow> (Inl re, t1 @ [EvRefresh])
             | Inr c \<Rightarrow>
                 (case cmDiscoverOwnedAdamID E (t1 @ [EvRefresh]) c extraHeaders of
                    (Inr (adamID, campaignName), t2) \<Rightarrow> (Inr (adamID, c), t2)
                  | (Inl e2, t2) \<Rightarrow> (Inl e2, t2)))
          else (Inl e, t1))"

text \<open>
  Where one iteration stands: the command has returned an error, or it holds the pair
  \<open>(respItems, err)\<close> of the last call.
\<close>

datatype attempt = Returned string | Got "string + cmKeywordItem list"

text \<open>The first call and the retry after a refresh (132-140, 244-252).\<close>

definition callWithRefresh ::
  "env \<Rightarrow> bool \<Rightarrow> api_call \<Rightarrow> string \<Rightarrow> 'row loop_state \<Rightarrow> attempt \<times> 'row loop_state"
where
  "callWithRefresh E autoCookie call cc st =
     (case call (ls_trace st) (ls_cookie st) (ls_adamID st) cc of
        (Inr items, t1) \<Rightarrow> (Got (Inr items), st\<lparr>ls_trace := t1\<rparr>)
      | (Inl e, t1) \<Rightarrow>
          if autoCookie \<and> isCMRefreshError (Some e) then
            (case refresh E t1 of
               Inl re \<Rightarrow> (Returned re, st\<lparr>ls_cookie := [], ls_trace := t1 @ [EvRefresh]\<rparr>)
             | Inr c \<Rightarrow>
                 (case call (t1 @ [EvRefresh]) c (ls_adamID st) cc of
                    (r, t2) \<Rightarrow> (Got r, st\<lparr>ls_cookie := c, ls_trace := t2\<rparr>)))
          else (Got (Inl e), st\<lparr>ls_trace := t1\<rparr>))"

text \<open>The fallback to an owned app (141-153, 253-265).\<close>

definition callWithFallback ::
  "env \<Rightarrow> bool \<Rightarrow> (string \<times> string) list \<Rightarrow> api_call \<Rightarrow> string \<Rightarrow>
   attempt \<times> 'row loop_state \<Rightarrow> attempt \<times> 'row loop_state"
where
  "callWithFallback E autoCookie extraHeaders call cc a =
     (case a of
        (Got (Inl e), st) \<Rightarrow>
          if \<not> ls_attempted st \<and> isCMNoUserOwnedAppsError (Some e) then
            (let st1 = st\<lparr>ls_attempted := True, ls_trace := ls_trace st @ [EvFallback]\<rparr> in
             case discoverOwnedAdamIDWithRefresh E (ls_trace st1) (ls_cookie st1) extraHeaders
                    autoCookie of
               (Inl discoverErr, t) \<Rightarrow>
                 (Returned (''adam-id '' @ itoa (ls_adamID st1) @
                    '' is not accessible for this Apple Ads account, and auto-discovery failed: '' @
                    discoverErr),
                  st1\<lparr>ls_trace := t\<rparr>)
             | (Inr (ownedAdamID, updatedCookie), t) \<Rightarrow>
                 (let adamID' = (if ownedAdamID > 0 \<and> ownedAdamID \<noteq> ls_adamID st1
                                 then ownedAdamID else ls_adamID st1) in
                  case call t updatedCookie adamID' cc of
                    (r, t') \<Rightarrow>
                      (Got r, st1\<lparr>ls_adamID := adamID', ls_cookie := updatedCookie,
                                  ls_trace := t'\<rparr>)))
          else a
      | _ \<Rightarrow> a)"

text \<open>
  One iteration: both retries, \<open>if err != nil { return err }\<close>, then the rows of the
  country. The first component is the error the command returns, if it returns here.
\<close>

definition iteration ::
  "env \<Rightarrow> bool \<Rightarrow> (string \<times> string) list \<Rightarrow> api_call \<Rightarrow>
   (string \<Rightarrow> cmKeywordItem list \<Rightarrow> 'row list) \<Rightarrow> 'row loop_state \<Rightarrow> string \<Rightarrow>
   error \<times> 'row loop_state"
where
  "iteration E autoCookie extraHeaders call rows st cc =
     (case callWithFallback E autoCookie extraHeaders call cc
             (callWithRefresh E autoCookie call cc st) of
        (Returned e, st') \<Rightarrow> (Some e, st')
      | (Got (Inl e), st') \<Rightarrow> (Some e, st')
      | (Got (Inr items), st') \<Rightarrow> (None, st'\<lparr>ls_out := ls_out st' @ rows cc items\<rparr>))"

fun runCountries ::
  "env \<Rightarrow> bool \<Rightarrow> (string \<times> string) list \<Rightarrow> api_call \<Rightarrow>
   (string \<Rightarrow> cmKeywordItem list \<Rightarrow> 'row list) \<Rightarrow> string list \<Rightarrow> 'row loop_state \<Rightarrow>
   error \<times> 'row loop_state"
where
  "runCountries E autoCookie extraHeaders call rows [] st = (None, st)"
| "runCountries E autoCookie extraHeaders call rows (cc # ccs) st =
     (case iteration E autoCookie extraHeaders call rows st cc of
        (Some e, st') \<Rightarrow> (Some e, st')
      | (None, st') \<Rightarrow> runCountries E autoCookie extraHeaders call rows ccs st')"

text \<open>
  The two loops, from the cookie and the \<open>adamID\<close> that the command has resolved and
  the trace \<open>tr0\<close> of what it did before.
\<close>

definition loopStart :: "string \<Rightarrow> int \<Rightarrow> event list \<Rightarrow> 'row loop_state" where
  "loopStart cookie adamID tr0 =
     \<lparr>ls_cookie = cookie, ls_adamID = adamID, ls_attempted = False, ls_out = [],
      ls_trace = tr0\<rparr>"

definition popscoreLoop ::
  "env \<Rightarrow> bool \<Rightarrow> (string \<times> string) list \<Rightarrow> string list \<Rightarrow> string list \<Rightarrow> string \<Rightarrow> int \<Rightarrow>
   event list \<Rightarrow> error \<times> asoPopscoreRow loop_state"
where
  "popscoreLoop E autoCookie extraHeaders keywords countries cookie adamID tr0 =
     runCountries E autoCookie extraHeaders (callPopularities E extraHeaders keywords)
       (popscoreRows keywords) countries (loopStart cookie adamID tr0)"

definition recommendLoop ::
  "env \<Rightarrow> (cmKeywordItem list \<Rightarrow> cmKeywordItem list) \<Rightarrow> bool \<Rightarrow> (string \<times> string) list \<Rightarrow>
   string \<Rightarrow> int \<Rightarrow> int \<Rightarrow> string list \<Rightarrow> string \<Rightarrow> int \<Rightarrow> event list \<Rightarrow>
   error \<times> asoRecommendRow loop_state"
where
  "recommendLoop E srt autoCookie extraHeaders seed limit minPop countries cookie adamID tr0 =
     runCountries E autoCookie extraHeaders (callRecommendations E extraHeaders seed)
       (recommendRows srt seed (effectiveLimit limit) minPop) countries
       (loopStart cookie adamID tr0)"

text \<open>What a trace holds: calls of the keyword API, of the campaign list, refreshes, fallbacks.\<close>

fun isApiCall :: "event \<Rightarrow> bool" where
  "isApiCall (EvHttp r) = (Method r = ''POST'')"
| "isApiCall _ = False"

fun isDiscoveryCall :: "event \<Rightarrow> bool" where
  "isDiscoveryCall (EvHttp r) = (Method r = ''GET'')"
| "isDiscoveryCall _ = False"

definition apiCalls :: "event list \<Rightarrow> nat" where
  "apiCalls tr = length (filter isApiCall tr)"

definition discoveryCalls :: "event list \<Rightarrow> nat" where
  "discoveryCalls tr = length (filter isDiscoveryCall tr)"

definition refreshes :: "event list \<Rightarrow> nat" where
  "refreshes tr = length (filter (\<lambda>ev. ev = EvRefresh) tr)"

definition fallbacks :: "event list \<Rightarrow> nat" where
  "fallbacks tr = length (filter (\<lambda>ev. ev = EvFallback) tr)"

text \<open>
  Stub clients and collaborators, to state what the loop does against them: a keyword API
  that always answers with an error classified as an expired credential, one that always
  answers with the not-owned error, a refresh that always yields a cookie, a discovery
  that always finds an owned app.
\<close>

definition alwaysExpired :: "api_call \<Rightarrow> bool" where
  "alwaysExpired call =
     (\<forall>tr cookie adamID cc. \<exists>e. fst (call tr cookie adamID cc) = Inl e \<and>
        isCMRefreshError (Some e))"

definition alwaysNotOwned :: "api_call \<Rightarrow> bool" where
  "alwaysNotOwned call =
     (\<forall>tr cookie adamID cc. \<exists>e. fst (call tr cookie adamID cc) = Inl e \<and>
        isCMNoUserOwnedAppsError (Some e))"

definition refreshSucceeds :: "env \<Rightarrow> bool" where
  "refreshSucceeds E = (\<forall>tr. \<exists>c. refresh E tr = Inr c)"

definition discoverySucceeds :: "env \<Rightarrow> (string \<times> string) list \<Rightarrow> bool" where
  "discoverySucceeds E extraHeaders =
     (\<forall>tr cookie. \<exists>found. fst (cmDiscoverOwnedAdamID E tr cookie extraHeaders) = Inr found)"

text \<open>
  Three concrete outsides. \<open>expiredClient\<close> answers every request with HTTP 403.
  \<open>expiringClient\<close> accepts a POST only as the first request after a refresh: its
  sessions last for one call. \<open>notOwnedClient\<close> answers every POST with the not-owned
  sentinel and lists one campaign of the app 111. Their refresh yields a cookie.
\<close>

definition expiredClient :: env where
  "expiredClient =
     \<lparr>http = (\<lambda>tr req. Response 403 \<lparr>raw = ''Forbidden'', parsed = None\<rparr>),
      refresh = (\<lambda>tr. Inr ''fresh=1'')\<rparr>"

definition expiringClient :: env where
  "expiringClient =
     \<lparr>http = (\<lambda>tr req.
         if Method req = ''POST'' \<and> tr \<noteq> [] \<and> last tr = EvRefresh
         then Response 200
                \<lparr>raw = ''{\"data\":[]}'', parsed = Some (JObject [(''data'', JArray [])])\<rparr>
         else Response 403 \<lparr>raw = ''Forbidden'', parsed = None\<rparr>),
      refresh = (\<lambda>tr. Inr ''fresh=1'')\<rparr>"

definition notOwnedClient :: env where
  "notOwnedClient =
     \<lparr>http = (\<lambda>tr req.
         if Method req = ''POST''
         then Response 400 \<lparr>raw = ''NO_USER_OWNED_APPS_FOUND_CODE'', parsed = None\<rparr>
         else Response 200
                \<lparr>raw = ''{\"data\":[{\"id\":1,\"name\":\"Brand\",\"adamId\":111}]}'',
                 parsed = Some (JObject [(''data'', JArray [JObject
                   [(''id'', JInt 1), (''name'', JString ''Brand''), (''adamId'', JInt 111)]])])\<rparr>),
      refresh = (\<lambda>tr. Inr ''fresh=1'')\<rparr>"

text \<open>The fallbacks that the loop may still make: one until the flag is set.\<close>

definition fallbackLeft :: "'row loop_state \<Rightarrow> nat" where
  "fallbackLeft st = (if ls_attempted st then 0 else 1)"

text \<open>A call of the keyword API adds one POST to the trace, whatever it returns.\<close>

definition postsOnce :: "api_call \<Rightarrow> bool" where
  "postsOnce call =
     (\<forall>tr cookie adamID cc. \<exists>req. snd (call tr cookie adamID cc) = tr @ [EvHttp req] \<and>
        Method req = ''POST'')"

section \<open>Loading the credential\<close>

text \<open>
  \<open>getCookieFlag\<close> (345-374). The flags are its inputs; \<open>os.ReadFile\<close> is a function
  \<open>readFile\<close> of the path with three outcomes, of which \<open>ReadNotExist\<close> is the error
  that \<open>errors.Is(err, os.ErrNotExist)\<close> recognises. \<open>Inl\<close> is the returned error.

  Line 362 tests the lower-cased copy of the value and line 363 cuts the value itself, by
  the seven bytes of \<open>len("cookie:")\<close>. Go's \<open>strings.ToLower\<close> lower-cases the Unicode
  characters of a UTF-8 string, and its result need not have the length of its argument.
  Here the lengths matter, so \<open>strings.ToLower\<close> is a parameter \<open>lower\<close> of the function.
\<close>

datatype read_result = ReadOK string | ReadNotExist | ReadFailed string

record cookie_flags =
  cookieFlag :: string
  cookieFileFlag :: string
  autoCookieFlag :: bool

definition stripCookiePrefix :: "(string \<Rightarrow> string) \<Rightarrow> string \<Rightarrow> string" where
  "stripCookiePrefix lower cookie =
     (if HasPrefix (lower cookie) ''cookie:'' then TrimSpace (drop (length ''cookie:'') cookie)
      else cookie)"

definition getCookieFlag ::
  "env \<Rightarrow> (string \<Rightarrow> string) \<Rightarrow> (string \<Rightarrow> read_result) \<Rightarrow> event list \<Rightarrow> cookie_flags \<Rightarrow>
   (string + string) \<times> event list"
where
  "getCookieFlag E lower readFile tr flags =
     (let cookie = TrimSpace (cookieFlag flags);
          loaded =
            (if cookie = [] \<and> TrimSpace (cookieFileFlag flags) \<noteq> [] then
               (case readFile (cookieFileFlag flags) of
                  ReadFailed e \<Rightarrow> Inl e
                | ReadNotExist \<Rightarrow> Inr cookie
                | ReadOK b \<Rightarrow> Inr (TrimSpace b))
             else Inr cookie)
      in case loaded of
           Inl e \<Rightarrow> (Inl e, tr)
         | Inr c \<Rightarrow>
             (let cookie' = stripCookiePrefix lower c in
              if cookie' = [] then
                (if \<not> autoCookieFlag flags then
                   (Inl ''--cookie (or --cookie-file) is required for this command'', tr)
                 else (refresh E tr, tr @ [EvRefresh]))
              else (Inr cookie', tr)))"

text \<open>
  \<open>strings.ToLower\<close> on the strings whose characters are ASCII or the Kelvin sign U+212A:
  the sign is the three bytes \<open>E2 84 AA\<close> in UTF-8 and its lower case is the letter \<open>k\<close>,
  one byte.
\<close>

fun lowerKelvin :: "string \<Rightarrow> string" where
  "lowerKelvin (c1 # c2 # c3 # cs) =
     (if c1 = CHR 0xE2 \<and> c2 = CHR 0x84 \<and> c3 = CHR 0xAA then CHR ''k'' # lowerKelvin cs
      else lower_char c1 # lowerKelvin (c2 # c3 # cs))"
| "lowerKelvin cs = ToLower cs"

text \<open>The value \<open>coo\<close>, Kelvin sign, \<open>ie:a=b\<close> of the flag \<open>--cookie\<close>, in UTF-8.\<close>

definition kelvinCookie :: string where
  "kelvinCookie = ''coo'' @ [CHR 0xE2, CHR 0x84, CHR 0xAA] @ ''ie:a=b''"

section \<open>Resolving the target\<close>

text \<open>
  \<open>strconv.ParseInt(s, 10, 64)\<close>: an optional sign, then decimal digits only and at
  least one, and a value within 64 bits; \<open>None\<close> is its error.
\<close>

definition isDigit :: "char \<Rightarrow> bool" where
  "isDigit c = (CHR ''0'' \<le> c \<and> c \<le> CHR ''9'')"

definition digitVal :: "char \<Rightarrow> int" where
  "digitVal c = int (of_char c) - 48"

definition decimalVal :: "string \<Rightarrow> int" where
  "decimalVal ds = foldl (\<lambda>a c. 10 * a + digitVal c) 0 ds"

definition ParseInt :: "string \<Rightarrow> int option" where
  "ParseInt s =
     (let neg = (s \<noteq> [] \<and> hd s = CHR ''-'');
          ds = (if s \<noteq> [] \<and> (hd s = CHR ''+'' \<or> hd s = CHR ''-'') then tl s else s)
      in if ds = [] \<or> \<not> list_all isDigit ds then None
         else (let n = (if neg then - decimalVal ds else decimalVal ds)
               in if int64_range n then Some n else None))"

text \<open>
  \<open>appStoreIDPattern.FindStringSubmatch\<close> for the pattern \<open>id([0-9]{5,})\<close>: the digits
  of the leftmost \<open>id\<close> that five or more digits follow, all the digits that follow it.
\<close>

fun findAppStoreID :: "string \<Rightarrow> string option" where
  "findAppStoreID [] = None"
| "findAppStoreID (c # cs) =
     (if HasPrefix (c # cs) ''id'' \<and> length (takeWhile isDigit (drop 2 (c # cs))) \<ge> 5
      then Some (takeWhile isDigit (drop 2 (c # cs)))
      else findAppStoreID cs)"

text \<open>\<open>parseAdamIDFromText\<close> (adam_id.go, 140-150).\<close>

definition parseAdamIDFromText :: "string \<Rightarrow> int" where
  "parseAdamIDFromText s =
     (case findAppStoreID s of
        None \<Rightarrow> 0
      | Some m1 \<Rightarrow>
          (case ParseInt (TrimSpace m1) of
             None \<Rightarrow> 0
           | Some n \<Rightarrow> if n \<le> 0 then 0 else n))"

text \<open>
  What \<open>parseAdamIDFromAppURL\<close> reads of a parsed URL: the path, the raw path and the
  query parameters as \<open>u.Query()\<close> has them. \<open>url.Parse\<close> itself is a parameter
  \<open>urlParse\<close> of the resolver (\<open>None\<close> is its error).
\<close>

record url =
  Path :: string
  RawPath :: string
  QueryValues :: "(string \<times> string) list"

definition Query_Get :: "url \<Rightarrow> string \<Rightarrow> string" where
  "Query_Get u key = (case map_of (QueryValues u) key of None \<Rightarrow> [] | Some v \<Rightarrow> v)"

datatype url_error = EmptyValue | InvalidURL | AdamIDNotFound string

text \<open>\<open>parseAdamIDFromAppURL\<close> (adam_id.go, 101-138).\<close>

definition positive :: "int option \<Rightarrow> int option" where
  "positive r = (case r of Some n \<Rightarrow> if n > 0 then Some n else None | None \<Rightarrow> None)"

definition parseAdamIDFromAppURL :: "(string \<Rightarrow> url option) \<Rightarrow> string \<Rightarrow> url_error + int" where
  "parseAdamIDFromAppURL urlParse rawText =
     (let s = TrimSpace rawText in
      if s = [] then Inl EmptyValue
      else (case positive (ParseInt s) of
        Some n \<Rightarrow> Inr n
      | None \<Rightarrow>
          (let s' = (if \<not> Contains s ''://'' then ''https://'' @ dropWhile (\<lambda>c. c = CHR ''/'') s
                     else s)
           in case urlParse s' of
                None \<Rightarrow> Inl InvalidURL
              | Some u \<Rightarrow>
                  if parseAdamIDFromText (Path u) > 0 then Inr (parseAdamIDFromText (Path u))
                  else if parseAdamIDFromText (RawPath u) > 0
                    then Inr (parseAdamIDFromText (RawPath u))
                  else (case (if TrimSpace (Query_Get u ''id'') \<noteq> []
                              then positive (ParseInt (TrimSpace (Query_Get u ''id'')))
                              else None) of
                          Some n \<Rightarrow> Inr n
                        | None \<Rightarrow>
                            if parseAdamIDFromText rawText > 0
                              then Inr (parseAdamIDFromText rawText)
                            else Inl (AdamIDNotFound rawText)))))"

text \<open>
  The storefront lookups. \<open>itunesGetJSON\<close> (218-249) is a parameter \<open>itunes\<close>: from the
  endpoint and the query to the decoded results or its error.
\<close>

record itunesAppEntry =
  TrackID :: int
  TrackName :: string
  BundleID :: string

datatype lookup_error = ItunesError string | NoResult | NoValidAdamID

type_synonym itunes_api = "string \<Rightarrow> (string \<times> string) list \<Rightarrow> string + itunesAppEntry list"

definition itunesLookupURL :: string where
  "itunesLookupURL = ''https://itunes.apple.com/lookup''"

definition itunesSearchURL :: string where
  "itunesSearchURL = ''https://itunes.apple.com/search''"

definition defaultAdamCountry :: string where
  "defaultAdamCountry = ''US''"

text \<open>\<open>lookupAdamIDByBundleID\<close> (152-182): the id with the app's name.\<close>

definition lookupAdamIDByBundleID ::
  "itunes_api \<Rightarrow> string \<Rightarrow> string \<Rightarrow> lookup_error + int \<times> string"
where
  "lookupAdamIDByBundleID itunes bundleID country =
     (case itunes itunesLookupURL
             [(''bundleId'', bundleID), (''country'', ToLower (TrimSpace country))] of
        Inl e \<Rightarrow> Inl (ItunesError e)
      | Inr results \<Rightarrow>
          if results = [] then Inl NoResult
          else (case find (\<lambda>it. \<not> TrackID it \<le> 0 \<and>
                             ToLower (TrimSpace (BundleID it)) = ToLower (TrimSpace bundleID))
                       results of
                  Some it \<Rightarrow> Inr (TrackID it, TrimSpace (TrackName it))
                | None \<Rightarrow>
                    (case find (\<lambda>it. TrackID it > 0) results of
                       Some it \<Rightarrow> Inr (TrackID it, TrimSpace (TrackName it))
                     | None \<Rightarrow> Inl NoValidAdamID)))"

text \<open>\<open>searchAdamIDByAppName\<close> (184-216): the id with the app's name and bundle id.\<close>

definition searchAdamIDByAppName ::
  "itunes_api \<Rightarrow> string \<Rightarrow> string \<Rightarrow> lookup_error + int \<times> string \<times> string"
where
  "searchAdamIDByAppName itunes appName country =
     (case itunes itunesSearchURL
             [(''term'', appName), (''entity'', ''software''), (''limit'', ''10''),
              (''country'', ToLower (TrimSpace country))] of
        Inl e \<Rightarrow> Inl (ItunesError e)
      | Inr results \<Rightarrow>
          if results = [] then Inl NoResult
          else (case find (\<lambda>it. \<not> TrackID it \<le> 0 \<and>
                             ToLower (TrimSpace (TrackName it)) = ToLower (TrimSpace appName))
                       results of
                  Some it \<Rightarrow>
                    Inr (TrackID it, TrimSpace (TrackName it), TrimSpace (BundleID it))
                | None \<Rightarrow>
                    (case find (\<lambda>it. TrackID it > 0) results of
                       Some it \<Rightarrow>
                         Inr (TrackID it, TrimSpace (TrackName it), TrimSpace (BundleID it))
                     | None \<Rightarrow> Inl NoValidAdamID)))"

text \<open>
  The flags of the target and \<open>resolveAdamIDFromFlags\<close> (42-87). \<open>ErrAdamIDNotProvided\<close>
  is the error that wraps \<open>errAdamIDNotProvided\<close>, the only one for which
  \<open>errors.Is(err, errAdamIDNotProvided)\<close> holds.
\<close>

record adam_flags =
  adam_id :: int
  app_url :: string
  bundle_id :: string
  app_name :: string
  adam_country :: string

datatype resolve_error =
    ErrAdamIDNotProvided
  | ErrParseAppURL url_error
  | ErrBundleID lookup_error
  | ErrAppName lookup_error

text \<open>\<open>adamLookupCountry\<close> (89-99).\<close>

definition adamLookupCountry :: "adam_flags \<Rightarrow> string list \<Rightarrow> string" where
  "adamLookupCountry flags countries =
     (let cc = ToUpper (TrimSpace (adam_country flags)) in
      if cc \<noteq> [] then cc
      else if length countries > 0 \<and> TrimSpace (hd countries) \<noteq> []
        then ToUpper (TrimSpace (hd countries))
      else defaultAdamCountry)"

definition resolveAdamIDFromFlags ::
  "(string \<Rightarrow> url option) \<Rightarrow> itunes_api \<Rightarrow> adam_flags \<Rightarrow> string list \<Rightarrow> resolve_error + int"
where
  "resolveAdamIDFromFlags urlParse itunes flags countries =
     (if adam_id flags > 0 then Inr (adam_id flags)
      else if TrimSpace (app_url flags) \<noteq> [] then
        (case parseAdamIDFromAppURL urlParse (app_url flags) of
           Inl e \<Rightarrow> Inl (ErrParseAppURL e)
         | Inr n \<Rightarrow> Inr n)
      else (let lookupCountry = adamLookupCountry flags countries in
        if TrimSpace (bundle_id flags) \<noteq> [] then
          (case lookupAdamIDByBundleID itunes (TrimSpace (bundle_id flags)) lookupCountry of
             Inl e \<Rightarrow> Inl (ErrBundleID e)
           | Inr (n, appName) \<Rightarrow> Inr n)
        else if TrimSpace (app_name flags) \<noteq> [] then
          (case searchAdamIDByAppName itunes (TrimSpace (app_name flags)) lookupCountry of
             Inl e \<Rightarrow> Inl (ErrAppName e)
           | Inr (n, resolvedName, resolvedBundleID) \<Rightarrow> Inr n)
        else Inl ErrAdamIDNotProvided))"

section \<open>The two commands\<close>

text \<open>
  \<open>resolveAdamIDForCMCommand\<close> (419-442): the target of the flags, or, when the flags
  name none, an owned app of the account. Its error is the resolver's own or the
  message that wraps the error of the discovery.
\<close>

datatype cmd_error = ResolveError resolve_error | Failed string

definition resolveAdamIDForCMCommand ::
  "env \<Rightarrow> (string \<Rightarrow> url option) \<Rightarrow> itunes_api \<Rightarrow> adam_flags \<Rightarrow> string list \<Rightarrow> string \<Rightarrow>
   (string \<times> string) list \<Rightarrow> bool \<Rightarrow> event list \<Rightarrow> (cmd_error + int \<times> string) \<times> event list"
where
  "resolveAdamIDForCMCommand E urlParse itunes flags countries cookie extraHeaders autoCookie tr =
     (case resolveAdamIDFromFlags urlParse itunes flags countries of
        Inr adamID \<Rightarrow> (Inr (adamID, cookie), tr)
      | Inl err \<Rightarrow>
          if err \<noteq> ErrAdamIDNotProvided then (Inl (ResolveError err), tr)
          else
            (case discoverOwnedAdamIDWithRefresh E tr cookie extraHeaders autoCookie of
               (Inl discoverErr, t) \<Rightarrow>
                 (Inl (Failed (''auto-resolve adam-id from Apple Ads account: '' @ discoverErr)), t)
             | (Inr (ownedAdamID, updatedCookie), t) \<Rightarrow> (Inr (ownedAdamID, updatedCookie), t)))"

text \<open>
  What a command has done when \<open>RunE\<close> returns: the error it returns, the rows it has
  handed to \<open>printOutput\<close>, the trace.
\<close>

record 'row run =
  run_error :: "cmd_error option"
  run_rows :: "'row list"
  run_trace :: "event list"

definition failed :: "cmd_error \<Rightarrow> event list \<Rightarrow> 'row run" where
  "failed e tr = \<lparr>run_error = Some e, run_rows = [], run_trace = tr\<rparr>"

definition finished :: "error \<times> 'row loop_state \<Rightarrow> 'row run" where
  "finished r =
     (case r of
        (Some e, st) \<Rightarrow> failed (Failed e) (ls_trace st)
      | (None, st) \<Rightarrow> \<lparr>run_error = None, run_rows = ls_out st, run_trace = ls_trace st\<rparr>)"

text \<open>
  The steps between the arguments and the loop, the same text in both commands (107-121,
  213-227): the credential, the extra headers, the target, then the loop from the cookie
  and the target that \<open>resolveAdamIDForCMCommand\<close> returns. \<open>headerFlag\<close> is the result
  of \<open>getExtraHeaders\<close>.
\<close>

definition withTarget ::
  "env \<Rightarrow> (string \<Rightarrow> string) \<Rightarrow> (string \<Rightarrow> read_result) \<Rightarrow> (string \<Rightarrow> url option) \<Rightarrow>
   itunes_api \<Rightarrow> cookie_flags \<Rightarrow> adam_flags \<Rightarrow> string + (string \<times> string) list \<Rightarrow> string list \<Rightarrow>
   event list \<Rightarrow>
   ((string \<times> string) list \<Rightarrow> string \<Rightarrow> int \<Rightarrow> event list \<Rightarrow> error \<times> 'row loop_state) \<Rightarrow>
   'row run"
where
  "withTarget E lower readFile urlParse itunes cflags aflags headerFlag countries tr0 loop =
     (case getCookieFlag E lower readFile tr0 cflags of
        (Inl e, t1) \<Rightarrow> failed (Failed e) t1
      | (Inr cookie, t1) \<Rightarrow>
          (case headerFlag of
             Inl e \<Rightarrow> failed (Failed e) t1
           | Inr extraHeaders \<Rightarrow>
               (case resolveAdamIDForCMCommand E urlParse itunes aflags countries cookie
                       extraHeaders (autoCookieFlag cflags) t1 of
                  (Inl e, t2) \<Rightarrow> failed e t2
                | (Inr (adamID, cookie'), t2) \<Rightarrow> finished (loop extraHeaders cookie' adamID t2))))"

text \<open>
  \<open>RunE\<close> of \<open>newASOPopscoreCmd\<close> (91-184) and of \<open>newASORecommendCmd\<close> (199-310).
  \<open>countries\<close> is the list that \<open>getCountriesFlag\<close> has returned and \<open>keywords\<close> the one
  of \<open>getKeywordsFlags\<close>: they come first, and their errors end the command before it
  has done anything.
\<close>

definition popscoreRunE ::
  "env \<Rightarrow> (string \<Rightarrow> string) \<Rightarrow> (string \<Rightarrow> read_result) \<Rightarrow> (string \<Rightarrow> url option) \<Rightarrow>
   itunes_api \<Rightarrow> cookie_flags \<Rightarrow> adam_flags \<Rightarrow> string + (string \<times> string) list \<Rightarrow> string list \<Rightarrow>
   string list \<Rightarrow> event list \<Rightarrow> asoPopscoreRow run"
where
  "popscoreRunE E lower readFile urlParse itunes cflags aflags headerFlag countries keywords tr0 =
     (if keywords = [] then
        failed (Failed ''no keywords provided (use --keywords or --keywords-file)'') tr0
      else withTarget E lower readFile urlParse itunes cflags aflags headerFlag countries tr0
             (\<lambda>extraHeaders cookie adamID t.
                popscoreLoop E (autoCookieFlag cflags) extraHeaders keywords countries cookie
                  adamID t))"

definition recommendRunE ::
  "env \<Rightarrow> (string \<Rightarrow> string) \<Rightarrow> (cmKeywordItem list \<Rightarrow> cmKeywordItem list) \<Rightarrow>
   (string \<Rightarrow> read_result) \<Rightarrow> (string \<Rightarrow> url option) \<Rightarrow> itunes_api \<Rightarrow> cookie_flags \<Rightarrow>
   adam_flags \<Rightarrow> string + (string \<times> string) list \<Rightarrow> string list \<Rightarrow> string \<Rightarrow> int \<Rightarrow> int \<Rightarrow>
   event list \<Rightarrow> asoRecommendRow run"
where
  "recommendRunE E lower srt readFile urlParse itunes cflags aflags headerFlag countries textFlag
     limit minPop tr0 =
     (let seed = TrimSpace textFlag in
      if seed = [] then failed (Failed ''--text is required'') tr0
      else withTarget E lower readFile urlParse itunes cflags aflags headerFlag countries tr0
             (\<lambda>extraHeaders cookie adamID t.
                recommendLoop E srt (autoCookieFlag cflags) extraHeaders seed limit minPop
                  countries cookie adamID t))"

text \<open>
  A client of which every operation reports an expired credential, and one that answers
  every request, the one for the campaign list too, with the not-owned sentinel. Its
  refresh yields a cookie.
\<close>

definition discoveryAlwaysExpired :: "env \<Rightarrow> (string \<times> string) list \<Rightarrow> bool" where
  "discoveryAlwaysExpired E extraHeaders =
     (\<forall>tr cookie. \<exists>e. fst (cmDiscoverOwnedAdamID E tr cookie extraHeaders) = Inl e \<and>
        isCMRefreshError (Some e))"

definition clientAlwaysExpired :: "env \<Rightarrow> bool" where
  "clientAlwaysExpired E =
     (\<forall>extraHeaders.
        (\<forall>keywords. alwaysExpired (callPopularities E extraHeaders keywords)) \<and>
        (\<forall>seed. alwaysExpired (callRecommendations E extraHeaders seed)) \<and>
        discoveryAlwaysExpired E extraHeaders)"

definition refusingClient :: env where
  "refusingClient =
     \<lparr>http = (\<lambda>tr req. Response 400 \<lparr>raw = ''NO_USER_OWNED_APPS_FOUND_CODE'', parsed = None\<rparr>),
      refresh = (\<lambda>tr. Inr ''fresh=1'')\<rparr>"

text \<open>
  The flags of a command that is given \<open>--cookie\<close> and no \<open>--cookie-file\<close>, and
  of one that names its target by \<open>--adam-id\<close>.
\<close>

definition cookieOnly :: "string \<Rightarrow> bool \<Rightarrow> cookie_flags" where
  "cookieOnly c auto = \<lparr>cookieFlag = c, cookieFileFlag = [], autoCookieFlag = auto\<rparr>"

definition adamIDFlag :: "int \<Rightarrow> adam_flags" where
  "adamIDFlag n = \<lparr>adam_id = n, app_url = [], bundle_id = [], app_name = [], adam_country = []\<rparr>"

section \<open>Facts about the string functions\<close>

lemma lower_char_code:
  "of_char (lower_char c) =
     (if CHR ''A'' \<le> c \<and> c \<le> CHR ''Z'' then of_char c + (32::nat) else of_char c)"
  by (cases c) (auto simp add: lower_char_def)

lemma upper_char_code:
  "(of_char (upper_char c) :: nat) =
     (if CHR ''a'' \<le> c \<and> c \<le> CHR ''z'' then of_char c - 32 else of_char c)"
  by (cases c) (auto simp add: upper_char_def)

lemma lower_char_idem: "lower_char (lower_char c) = lower_char c"
  by (cases c) (simp add: lower_char_def)

lemma ToLower_idem: "ToLower (ToLower s) = ToLower s"
  by (simp add: ToLower_def lower_char_idem)

lemma HasPrefix_iff: "HasPrefix s p \<longleftrightarrow> (\<exists>t. s = p @ t)"
  by (induction s p rule: HasPrefix.induct) auto

lemma Contains_iff: "Contains s sub \<longleftrightarrow> (\<exists>pre post. s = pre @ sub @ post)"
proof (induction s)
  case Nil
  then show ?case by auto
next
  case (Cons c cs)
  show ?case
  proof
    assume "Contains (c # cs) sub"
    then consider "HasPrefix (c # cs) sub" | "Contains cs sub" by auto
    then show "\<exists>pre post. c # cs = pre @ sub @ post"
    proof cases
      case 1
      then obtain t where "c # cs = sub @ t" by (auto simp: HasPrefix_iff)
      then have "c # cs = [] @ sub @ t" by simp
      then show ?thesis by blast
    next
      case 2
      then obtain pre post where "cs = pre @ sub @ post" using Cons.IH by blast
      then have "c # cs = (c # pre) @ sub @ post" by simp
      then show ?thesis by blast
    qed
  next
    assume "\<exists>pre post. c # cs = pre @ sub @ post"
    then obtain pre post where eq: "c # cs = pre @ sub @ post" by blast
    show "Contains (c # cs) sub"
    proof (cases pre)
      case Nil
      with eq have "HasPrefix (c # cs) sub" by (auto simp: HasPrefix_iff)
      then show ?thesis by simp
    next
      case (Cons p ps)
      with eq have "cs = ps @ sub @ post" by simp
      then have "Contains cs sub" using Cons.IH by blast
      then show ?thesis by simp
    qed
  qed
qed

section \<open>Classification of an expired credential\<close>

text \<open>
  C3, as stated, at a concrete error: the message contains the literal
  \<open>user is not logged in\<close>, and \<open>isCMRefreshError\<close> still answers \<open>false\<close>, because the
  message also carries the not-owned sentinel and the function returns early on it.
\<close>

theorem C3_not_logged_in_with_sentinel:
  "Contains (ToLower ''User is not logged in (NO_USER_OWNED_APPS_FOUND_CODE)'')
     ''user is not logged in'' \<and>
   \<not> isCMRefreshError (Some ''User is not logged in (NO_USER_OWNED_APPS_FOUND_CODE)'')"
  by code_simp

text \<open>
  C3, amended: an error is classified as an expired credential exactly when its
  lower-cased message does not contain the not-owned sentinel
  \<open>no_user_owned_apps_found_code\<close> and contains the internal-code tag
  \<open>internalerrorcode":"refresh\<close>, or \<open>user is not logged in\<close>, or
  \<open>cm endpoint http 403\<close>. In particular a message that contains
  \<open>user is not logged in\<close> in any letter case, and not the sentinel, is classified as
  expired; \<open>nil\<close> never is.
\<close>

theorem C3_isCMRefreshError_iff:
  "(isCMRefreshError (Some msg) \<longleftrightarrow>
      \<not> Contains (ToLower msg) ''no_user_owned_apps_found_code'' \<and>
      (Contains (ToLower msg) ''internalerrorcode\":\"refresh'' \<or>
       Contains (ToLower msg) ''user is not logged in'' \<or>
       Contains (ToLower msg) ''cm endpoint http 403'')) \<and>
   (Contains (ToLower msg) ''user is not logged in'' \<and>
      \<not> Contains (ToLower msg) ''no_user_owned_apps_found_code''
      \<longrightarrow> isCMRefreshError (Some msg)) \<and>
   \<not> isCMRefreshError None"
  by (auto simp add: isCMRefreshError_def Let_def)

theorem C3_isCMRefreshError_iff_witness:
  "Contains (ToLower ''cm popularities error (AUTH/x): User is NOT logged in'')
     ''user is not logged in'' \<and>
   \<not> Contains (ToLower ''cm popularities error (AUTH/x): User is NOT logged in'')
     ''no_user_owned_apps_found_code'' \<and>
   isCMRefreshError (Some ''cm popularities error (AUTH/x): User is NOT logged in'')"
proof -
  have a: "Contains (ToLower ''cm popularities error (AUTH/x): User is NOT logged in'')
     ''user is not logged in''"
    by code_simp
  have b: "\<not> Contains (ToLower ''cm popularities error (AUTH/x): User is NOT logged in'')
     ''no_user_owned_apps_found_code''"
    by code_simp
  from a b C3_isCMRefreshError_iff [of "''cm popularities error (AUTH/x): User is NOT logged in''"]
  show ?thesis by blast
qed

section \<open>The classifier on the success envelope and on the flat error envelope\<close>

lemma dec_cmKeywordItem_json_of:
  "int64_range (ID it) \<Longrightarrow> int64_range (Popularity it) \<Longrightarrow>
   dec_cmKeywordItem z (json_of_cmKeywordItem it) = Some it"
  by (simp add: dec_cmKeywordItem_def json_of_cmKeywordItem_def dec_struct_def match_field_def
      set_cmKeywordItem_def dec_int_def dec_string_def)

lemma dec_elems_json_of:
  "\<forall>it \<in> set items. int64_range (ID it) \<and> int64_range (Popularity it) \<Longrightarrow>
   dec_elems dec_cmKeywordItem z cur (map json_of_cmKeywordItem items) = Some items"
  by (induction items arbitrary: cur) (simp_all add: dec_cmKeywordItem_json_of)

lemma unmarshal_success_envelope:
  assumes "\<forall>it \<in> set items. int64_range (ID it) \<and> int64_range (Popularity it)"
  shows "unmarshal_cmSuccessResponse \<lparr>raw = r, parsed = Some (success_envelope rid st items)\<rparr> =
     Some \<lparr>RequestID = (case rid of None \<Rightarrow> [] | Some x \<Rightarrow> x),
           Status = (case st of None \<Rightarrow> [] | Some x \<Rightarrow> x), Data = items\<rparr>"
  using assms
  by (cases rid; cases st)
    (simp_all add: unmarshal_cmSuccessResponse_def success_envelope_def dec_struct_def
      match_field_def set_cmSuccessResponse_def dec_string_def dec_slice_def
      dec_elems_json_of zero_cmSuccessResponse_def)

text \<open>
  C4: a body that decodes into \<open>cmSuccessResponse\<close> without error and with a status that
  is empty (or omitted) or equal to \<open>success\<close> in any letter case is classified as a
  success, and the items returned are the decoded \<open>data\<close>. In particular a body whose JSON
  value is a success envelope (an optional \<open>requestID\<close>, an optional \<open>status\<close>, the items
  under \<open>data\<close>, their numbers within 64 bits) with such a status yields exactly the
  envelope's items in the envelope's order.
\<close>

theorem C4_success_envelope:
  "(unmarshal_cmSuccessResponse b = Some ok \<and>
    (Status ok = [] \<or> EqualFold (Status ok) ''success'') \<longrightarrow>
      parseCMKeywordData endpoint b = Inr (Data ok)) \<and>
   ((\<forall>it \<in> set items. int64_range (ID it) \<and> int64_range (Popularity it)) \<and>
    (st = None \<or> st = Some [] \<or> (\<exists>s. st = Some s \<and> EqualFold s ''success'')) \<longrightarrow>
      parseCMKeywordData endpoint
        \<lparr>raw = r, parsed = Some (success_envelope rid st items)\<rparr> = Inr items)"
proof (intro conjI impI)
  assume "unmarshal_cmSuccessResponse b = Some ok \<and>
    (Status ok = [] \<or> EqualFold (Status ok) ''success'')"
  then show "parseCMKeywordData endpoint b = Inr (Data ok)"
    by (auto simp add: parseCMKeywordData_def)
next
  assume a: "(\<forall>it \<in> set items. int64_range (ID it) \<and> int64_range (Popularity it)) \<and>
    (st = None \<or> st = Some [] \<or> (\<exists>s. st = Some s \<and> EqualFold s ''success''))"
  then have range: "\<forall>it \<in> set items. int64_range (ID it) \<and> int64_range (Popularity it)"
    by simp
  from a show "parseCMKeywordData endpoint
      \<lparr>raw = r, parsed = Some (success_envelope rid st items)\<rparr> = Inr items"
    by (auto simp add: parseCMKeywordData_def unmarshal_success_envelope [OF range])
qed

theorem C4_success_envelope_witness:
  "parseCMKeywordData ''popularities''
     \<lparr>raw = ''{\"status\":\"SUCCESS\",\"data\":[...]}'',
      parsed = Some (success_envelope None (Some ''SUCCESS'')
        [\<lparr>ID = 7, Name = ''plant app'', Popularity = 42, MatchType = ''EXACT''\<rparr>,
         \<lparr>ID = 3, Name = ''plant id'', Popularity = 42, MatchType = ''BROAD''\<rparr>])\<rparr> =
   Inr [\<lparr>ID = 7, Name = ''plant app'', Popularity = 42, MatchType = ''EXACT''\<rparr>,
        \<lparr>ID = 3, Name = ''plant id'', Popularity = 42, MatchType = ''BROAD''\<rparr>]"
proof -
  have range: "\<forall>it \<in> set [\<lparr>ID = 7, Name = ''plant app'', Popularity = 42, MatchType = ''EXACT''\<rparr>,
         \<lparr>ID = 3, Name = ''plant id'', Popularity = 42, MatchType = ''BROAD''\<rparr>].
       int64_range (ID it) \<and> int64_range (Popularity it)"
    by (simp add: int64_range_def)
  have fold: "EqualFold ''SUCCESS'' ''success''"
    by (simp add: EqualFold_def ToLower_def lower_char_def)
  then have st: "Some ''SUCCESS'' = None \<or> Some ''SUCCESS'' = Some [] \<or>
      (\<exists>s. Some ''SUCCESS'' = Some s \<and> EqualFold s ''success'')"
    by blast
  from C4_success_envelope [of undefined undefined "''popularities''"
      "[\<lparr>ID = 7, Name = ''plant app'', Popularity = 42, MatchType = ''EXACT''\<rparr>,
        \<lparr>ID = 3, Name = ''plant id'', Popularity = 42, MatchType = ''BROAD''\<rparr>]"
      "Some ''SUCCESS''"] range st
  show ?thesis by blast
qed

text \<open>
  C1 on the code: the flat error envelope
  \<open>{"errorMsg":"Session expired","errorCode":"AUTH","internalErrorCode":"refresh_required"}\<close>
  decodes into \<open>cmSuccessResponse\<close> without error and with an empty status, so the first
  attempt of both classifiers returns it as a success with no items; the attempt for the
  flat error envelope is never reached.
\<close>

theorem C1_flat_error_envelope_classified_success:
  "parseCMKeywordData ''popularities''
     \<lparr>raw = ''{\"errorMsg\":\"Session expired\",\"errorCode\":\"AUTH\",\"internalErrorCode\":\"refresh_required\"}'',
      parsed = Some (JObject [(''errorMsg'', JString ''Session expired''),
                  (''errorCode'', JString ''AUTH''),
                  (''internalErrorCode'', JString ''refresh_required'')])\<rparr> = Inr [] \<and>
   parseCMCampaignData ''campaigns/find''
     \<lparr>raw = ''{\"errorMsg\":\"Session expired\",\"errorCode\":\"AUTH\",\"internalErrorCode\":\"refresh_required\"}'',
      parsed = Some (JObject [(''errorMsg'', JString ''Session expired''),
                  (''errorCode'', JString ''AUTH''),
                  (''internalErrorCode'', JString ''refresh_required'')])\<rparr> = Inr []"
  by code_simp


section \<open>The header of a request\<close>

lemma Header_Get_Set:
  "Header_Get (Header_Set h k v) k' =
     (if CanonicalMIMEHeaderKey k' = CanonicalMIMEHeaderKey k then Some v else Header_Get h k')"
  by (simp add: Header_Get_def Header_Set_def update_conv')

lemma Header_Get_withExtraHeaders_other:
  "\<forall>(k, v) \<in> set extra. CanonicalMIMEHeaderKey k \<noteq> CanonicalMIMEHeaderKey name \<Longrightarrow>
   Header_Get (withExtraHeaders h extra) name = Header_Get h name"
  unfolding withExtraHeaders_def
  by (induction extra arbitrary: h) (auto simp add: Header_Get_Set)

lemma Header_Get_withExtraHeaders_last:
  "Header_Get (withExtraHeaders h (extra @ [(k, v)])) k = Some v"
  by (simp add: withExtraHeaders_def Header_Get_Set)

lemma withExtraHeaders_append:
  "withExtraHeaders h (xs @ ys) = withExtraHeaders (withExtraHeaders h xs) ys"
  by (simp add: withExtraHeaders_def)

lemma Header_Get_withExtraHeaders_distinct:
  assumes "distinct (map (\<lambda>(k, v). CanonicalMIMEHeaderKey k) extra)" and "(k, v) \<in> set extra"
  shows "Header_Get (withExtraHeaders h extra) k = Some v"
proof -
  from assms(2) obtain xs ys where split: "extra = xs @ (k, v) # ys"
    by (auto simp: in_set_conv_decomp)
  with assms(1) have "CanonicalMIMEHeaderKey k \<notin> (\<lambda>(k, v). CanonicalMIMEHeaderKey k) ` set ys"
    by simp
  then have "\<forall>(k', v') \<in> set ys. CanonicalMIMEHeaderKey k' \<noteq> CanonicalMIMEHeaderKey k"
    by force
  then have "Header_Get (withExtraHeaders (withExtraHeaders h (xs @ [(k, v)])) ys) k =
      Header_Get (withExtraHeaders h (xs @ [(k, v)])) k"
    by (rule Header_Get_withExtraHeaders_other)
  then show ?thesis
    using split by (simp add: withExtraHeaders_append [symmetric] Header_Get_withExtraHeaders_last)
qed

lemma Header_Get_withExtraHeaders_some_caller:
  "(k, v) \<in> set extra \<Longrightarrow>
   \<exists>k' v'. (k', v') \<in> set extra \<and> CanonicalMIMEHeaderKey k' = CanonicalMIMEHeaderKey k \<and>
     Header_Get (withExtraHeaders h extra) k = Some v'"
proof (induction extra arbitrary: h rule: rev_induct)
  case Nil
  then show ?case by simp
next
  case (snoc x xs)
  obtain k0 v0 where x: "x = (k0, v0)" by (cases x)
  show ?case
  proof (cases "CanonicalMIMEHeaderKey k0 = CanonicalMIMEHeaderKey k")
    case True
    have "Header_Get (withExtraHeaders h (xs @ [x])) k = Some v0"
      using True by (simp add: x withExtraHeaders_def Header_Get_Set)
    moreover have "(k0, v0) \<in> set (xs @ [x])" by (simp add: x)
    ultimately show ?thesis using True by blast
  next
    case False
    with snoc.prems x have "(k, v) \<in> set xs" by auto
    from snoc.IH [OF this, of h] obtain k' v' where
      "(k', v') \<in> set xs" "CanonicalMIMEHeaderKey k' = CanonicalMIMEHeaderKey k"
      "Header_Get (withExtraHeaders h xs) k = Some v'" by blast
    moreover have "Header_Get (withExtraHeaders h (xs @ [x])) k = Header_Get (withExtraHeaders h xs) k"
      using False by (simp add: x withExtraHeaders_def Header_Get_Set)
    ultimately have "(k', v') \<in> set (xs @ [x]) \<and>
      CanonicalMIMEHeaderKey k' = CanonicalMIMEHeaderKey k \<and>
      Header_Get (withExtraHeaders h (xs @ [x])) k = Some v'" by simp
    then show ?thesis by blast
  qed
qed

lemma lower_upper_char: "lower_char (upper_char c) = lower_char c"
  by (cases c) (auto simp add: lower_char_def upper_char_def)

lemma ToLower_canonical_bytes: "ToLower (canonical_bytes u s) = ToLower s"
  by (induction s arbitrary: u) (simp_all add: ToLower_def Let_def lower_upper_char lower_char_idem)

lemma valid_not_space: "validHeaderFieldByte c \<Longrightarrow> \<not> isSpace c"
  by (auto simp add: validHeaderFieldByte_def isSpace_def)

lemma dropWhile_none: "\<forall>x \<in> set xs. \<not> P x \<Longrightarrow> dropWhile P xs = xs"
  by (cases xs) auto

lemma TrimSpace_no_space: "\<forall>c \<in> set s. \<not> isSpace c \<Longrightarrow> TrimSpace s = s"
  by (simp add: TrimSpace_def dropWhile_none)

lemma canonical_token_name:
  assumes "CanonicalMIMEHeaderKey k = CanonicalMIMEHeaderKey ''X-XSRF-TOKEN-CM''"
  shows "ToLower (TrimSpace k) = ToLower (TrimSpace ''X-XSRF-TOKEN-CM'')"
proof -
  have c: "CanonicalMIMEHeaderKey ''X-XSRF-TOKEN-CM'' = ''X-Xsrf-Token-Cm''"
    by code_simp
  have r: "ToLower (TrimSpace ''X-XSRF-TOKEN-CM'') = ''x-xsrf-token-cm''"
    by code_simp
  have v: "list_all validHeaderFieldByte ''X-Xsrf-Token-Cm''"
    by code_simp
  have l: "ToLower ''X-Xsrf-Token-Cm'' = ''x-xsrf-token-cm''"
    by code_simp
  have valid: "list_all validHeaderFieldByte k"
  proof (rule ccontr)
    assume "\<not> list_all validHeaderFieldByte k"
    then have "CanonicalMIMEHeaderKey k = k" by (simp add: CanonicalMIMEHeaderKey_def)
    with assms c have "k = ''X-Xsrf-Token-Cm''" by simp
    with v \<open>\<not> list_all validHeaderFieldByte k\<close> show False by simp
  qed
  then have "canonical_bytes True k = ''X-Xsrf-Token-Cm''"
    using assms c by (simp add: CanonicalMIMEHeaderKey_def)
  then have "ToLower k = ''x-xsrf-token-cm''"
    using ToLower_canonical_bytes [of True k] l by simp
  moreover have "TrimSpace k = k"
    using valid by (intro TrimSpace_no_space) (auto simp: list_all_iff valid_not_space)
  ultimately show ?thesis using r by simp
qed

lemma no_extra_token_header:
  assumes "\<not> hasHeaderCaseInsensitive extra ''X-XSRF-TOKEN-CM''"
  shows "\<forall>(k, v) \<in> set extra.
    CanonicalMIMEHeaderKey k \<noteq> CanonicalMIMEHeaderKey ''X-XSRF-TOKEN-CM''"
proof (rule ccontr)
  assume "\<not> ?thesis"
  then obtain k v where kv: "(k, v) \<in> set extra"
    "CanonicalMIMEHeaderKey k = CanonicalMIMEHeaderKey ''X-XSRF-TOKEN-CM''" by blast
  from canonical_token_name [OF kv(2)] kv(1) have "hasHeaderCaseInsensitive extra ''X-XSRF-TOKEN-CM''"
    unfolding hasHeaderCaseInsensitive_def list_ex_iff by blast
  with assms show False by simp
qed

lemma Header_Get_fixed_Cookie: "Header_Get (fixedHeaders post cookie) ''Cookie'' = Some cookie"
proof -
  have "CanonicalMIMEHeaderKey ''Cookie'' \<noteq> CanonicalMIMEHeaderKey ''Origin''"
       "CanonicalMIMEHeaderKey ''Cookie'' \<noteq> CanonicalMIMEHeaderKey ''Referer''"
       "CanonicalMIMEHeaderKey ''Cookie'' \<noteq> CanonicalMIMEHeaderKey ''X-Requested-With''"
       "CanonicalMIMEHeaderKey ''Cookie'' \<noteq> CanonicalMIMEHeaderKey ''User-Agent''"
    by code_simp+
  then show ?thesis
    by (simp add: fixedHeaders_def Let_def Header_Get_Set)
qed

lemma Header_Get_withToken_Cookie:
  "Header_Get (withToken h cookie extra) ''Cookie'' = Header_Get h ''Cookie''"
proof -
  have "CanonicalMIMEHeaderKey ''Cookie'' \<noteq> CanonicalMIMEHeaderKey ''X-XSRF-TOKEN-CM''"
    by code_simp
  then show ?thesis
    by (simp add: withToken_def Let_def Header_Get_Set)
qed


text \<open>
  C9, as stated, at a concrete credential: \<open>a=1; XSRF-TOKEN-CM=\<close> has a sub-field named
  \<open>XSRF-TOKEN-CM\<close>, the caller gives no header, and the request has no header
  \<open>X-XSRF-TOKEN-CM\<close> at all: the client attaches the token only when it is not empty.
\<close>

theorem C9_empty_token_not_attached:
  "Split ''a=1; XSRF-TOKEN-CM='' CHR '';'' = [''a=1'', '' XSRF-TOKEN-CM=''] \<and>
   \<not> hasHeaderCaseInsensitive [] ''X-XSRF-TOKEN-CM'' \<and>
   Header_Get (requestHeader True ''a=1; XSRF-TOKEN-CM='' []) ''X-XSRF-TOKEN-CM'' = None"
  by code_simp

text \<open>
  C9, amended: the request that \<open>cmPostJSON\<close> and \<open>cmGetJSON\<close> hand to the transport carries
  the header \<open>requestHeader\<close>. In it the credential is the value of \<open>Cookie\<close>, unless
  a caller's header has that name. When the credential has a non-empty sub-field
  \<open>XSRF-TOKEN-CM\<close> and no caller's header is named \<open>X-XSRF-TOKEN-CM\<close> in any letter
  case, the sub-field's value is the value of \<open>X-XSRF-TOKEN-CM\<close>. The caller's headers are
  set last: under each of their names the header holds a caller's value, and the very
  value given with that name when the caller's names are distinct as header names.
\<close>

theorem C9_request_header:
  "(\<exists>req. snd (cmPostJSON E tr u q p cookie extra) = tr @ [EvHttp req] \<and>
      fst (cmPostJSON E tr u q p cookie extra) = checkStatus (http E tr req) \<and>
      Header req = requestHeader True cookie extra) \<and>
   (\<exists>req. snd (cmGetJSON E tr u cookie extra) = tr @ [EvHttp req] \<and>
      fst (cmGetJSON E tr u cookie extra) = checkStatus (http E tr req) \<and>
      Header req = requestHeader False cookie extra) \<and>
   ((\<forall>(k, v) \<in> set extra. CanonicalMIMEHeaderKey k \<noteq> CanonicalMIMEHeaderKey ''Cookie'') \<longrightarrow>
      Header_Get (requestHeader post cookie extra) ''Cookie'' = Some cookie) \<and>
   (cookieValue cookie ''XSRF-TOKEN-CM'' \<noteq> [] \<and>
    \<not> hasHeaderCaseInsensitive extra ''X-XSRF-TOKEN-CM'' \<longrightarrow>
      Header_Get (requestHeader post cookie extra) ''X-XSRF-TOKEN-CM'' =
        Some (cookieValue cookie ''XSRF-TOKEN-CM'')) \<and>
   (\<forall>(k, v) \<in> set extra. \<exists>k' v'. (k', v') \<in> set extra \<and>
      CanonicalMIMEHeaderKey k' = CanonicalMIMEHeaderKey k \<and>
      Header_Get (requestHeader post cookie extra) k = Some v') \<and>
   (distinct (map (\<lambda>(k, v). CanonicalMIMEHeaderKey k) extra) \<longrightarrow>
      (\<forall>(k, v) \<in> set extra. Header_Get (requestHeader post cookie extra) k = Some v))"
proof (intro conjI impI)
  show "\<exists>req. snd (cmPostJSON E tr u q p cookie extra) = tr @ [EvHttp req] \<and>
      fst (cmPostJSON E tr u q p cookie extra) = checkStatus (http E tr req) \<and>
      Header req = requestHeader True cookie extra"
    by (simp add: cmPostJSON_def Let_def)
  show "\<exists>req. snd (cmGetJSON E tr u cookie extra) = tr @ [EvHttp req] \<and>
      fst (cmGetJSON E tr u cookie extra) = checkStatus (http E tr req) \<and>
      Header req = requestHeader False cookie extra"
    by (simp add: cmGetJSON_def Let_def)
next
  assume "\<forall>(k, v) \<in> set extra. CanonicalMIMEHeaderKey k \<noteq> CanonicalMIMEHeaderKey ''Cookie''"
  then show "Header_Get (requestHeader post cookie extra) ''Cookie'' = Some cookie"
    by (simp add: requestHeader_def Header_Get_withExtraHeaders_other
        Header_Get_withToken_Cookie Header_Get_fixed_Cookie)
next
  assume a: "cookieValue cookie ''XSRF-TOKEN-CM'' \<noteq> [] \<and>
    \<not> hasHeaderCaseInsensitive extra ''X-XSRF-TOKEN-CM''"
  then have "Header_Get (withToken (fixedHeaders post cookie) cookie extra) ''X-XSRF-TOKEN-CM'' =
      Some (cookieValue cookie ''XSRF-TOKEN-CM'')"
    by (simp add: withToken_def Let_def Header_Get_Set)
  moreover from a have "\<forall>(k, v) \<in> set extra.
      CanonicalMIMEHeaderKey k \<noteq> CanonicalMIMEHeaderKey ''X-XSRF-TOKEN-CM''"
    by (intro no_extra_token_header) simp
  ultimately show "Header_Get (requestHeader post cookie extra) ''X-XSRF-TOKEN-CM'' =
      Some (cookieValue cookie ''XSRF-TOKEN-CM'')"
    unfolding requestHeader_def by (simp only: Header_Get_withExtraHeaders_other)
next
  show "\<forall>(k, v) \<in> set extra. \<exists>k' v'. (k', v') \<in> set extra \<and>
      CanonicalMIMEHeaderKey k' = CanonicalMIMEHeaderKey k \<and>
      Header_Get (requestHeader post cookie extra) k = Some v'"
    unfolding requestHeader_def using Header_Get_withExtraHeaders_some_caller by fast
next
  assume "distinct (map (\<lambda>(k, v). CanonicalMIMEHeaderKey k) extra)"
  then show "\<forall>(k, v) \<in> set extra. Header_Get (requestHeader post cookie extra) k = Some v"
    unfolding requestHeader_def using Header_Get_withExtraHeaders_distinct by fast
qed

theorem C9_request_header_witness:
  "Header_Get (requestHeader True ''a=1; XSRF-TOKEN-CM=tok; b=2''
      [(''X-Trace'', ''1''), (''accept'', ''text/plain'')]) ''Cookie'' =
     Some ''a=1; XSRF-TOKEN-CM=tok; b=2'' \<and>
   Header_Get (requestHeader True ''a=1; XSRF-TOKEN-CM=tok; b=2''
      [(''X-Trace'', ''1''), (''accept'', ''text/plain'')]) ''X-XSRF-TOKEN-CM'' = Some ''tok'' \<and>
   Header_Get (requestHeader True ''a=1; XSRF-TOKEN-CM=tok; b=2''
      [(''X-Trace'', ''1''), (''accept'', ''text/plain'')]) ''Accept'' = Some ''text/plain''"
proof -
  let ?cookie = "''a=1; XSRF-TOKEN-CM=tok; b=2''"
  let ?extra = "[(''X-Trace'', ''1''), (''accept'', ''text/plain'')]"
  have h1: "\<forall>(k, v) \<in> set ?extra. CanonicalMIMEHeaderKey k \<noteq> CanonicalMIMEHeaderKey ''Cookie''"
    by code_simp
  have h2: "cookieValue ?cookie ''XSRF-TOKEN-CM'' \<noteq> [] \<and>
      \<not> hasHeaderCaseInsensitive ?extra ''X-XSRF-TOKEN-CM''"
    by code_simp
  have h3: "distinct (map (\<lambda>(k, v). CanonicalMIMEHeaderKey k) ?extra)"
    by code_simp
  have v: "cookieValue ?cookie ''XSRF-TOKEN-CM'' = ''tok''"
    by code_simp
  have c: "CanonicalMIMEHeaderKey ''accept'' = CanonicalMIMEHeaderKey ''Accept''"
    by code_simp
  from C9_request_header [of undefined "[]" "[]" "[]" JNull ?cookie ?extra True]
  have "Header_Get (requestHeader True ?cookie ?extra) ''Cookie'' = Some ?cookie"
    and "Header_Get (requestHeader True ?cookie ?extra) ''X-XSRF-TOKEN-CM'' = Some ''tok''"
    and "Header_Get (requestHeader True ?cookie ?extra) ''accept'' = Some ''text/plain''"
    using h1 h2 h3 v by auto
  then show ?thesis
    using c by (simp add: Header_Get_def)
qed


section \<open>The rows of the recommendations\<close>

lemma recommendLess_asym: "recommendLess a b \<Longrightarrow> \<not> recommendLess b a"
  by (auto simp add: recommendLess_def split: if_splits)

lemma recommendLess_negtrans:
  "\<not> recommendLess b a \<Longrightarrow> \<not> recommendLess c b \<Longrightarrow> \<not> recommendLess c a"
  by (auto simp add: recommendLess_def split: if_splits)

lemma mset_insertItem: "mset (insertItem x ys) = add_mset x (mset ys)"
  by (induction ys) auto

lemma set_insertItem: "set (insertItem x ys) = insert x (set ys)"
  by (induction ys) auto

lemma sorted_insertItem:
  "sorted_wrt (\<lambda>a b. \<not> recommendLess b a) ys \<Longrightarrow>
   sorted_wrt (\<lambda>a b. \<not> recommendLess b a) (insertItem x ys)"
proof (induction ys)
  case Nil
  then show ?case by simp
next
  case (Cons y ys)
  show ?case
  proof (cases "recommendLess y x")
    case True
    with Cons show ?thesis
      by (auto simp add: set_insertItem dest: recommendLess_asym)
  next
    case False
    have "\<not> recommendLess z x" if "z \<in> set ys" for z
      using Cons.prems that False recommendLess_negtrans [of y x z] by auto
    with False Cons.prems show ?thesis
      by auto
  qed
qed

lemma sortsBy_insertionSort: "sortsBy recommendLess insertionSort"
proof -
  have "mset (insertionSort xs) = mset xs \<and>
      sorted_wrt (\<lambda>a b. \<not> recommendLess b a) (insertionSort xs)" for xs
    unfolding insertionSort_def
    by (induction xs) (simp_all add: mset_insertItem sorted_insertItem)
  then show ?thesis by (simp add: sortsBy_def)
qed

lemma truncateTo_positive: "0 \<le> limit \<Longrightarrow> truncateTo limit xs = take (nat limit) xs"
  by (auto simp add: truncateTo_def)

lemma set_truncateTo: "set (truncateTo limit xs) \<subseteq> set xs"
  by (auto simp add: truncateTo_def dest: in_set_takeD)

lemma effectiveLimit_positive: "0 < effectiveLimit limit"
  by (simp add: effectiveLimit_def)

lemma length_recommendRows:
  "length (recommendRows srt seed limit minPop cc items) =
     length (truncateTo limit (srt (keptItems minPop items)))"
  by (simp add: recommendRows_def Let_def)

lemma nth_recommendRows:
  "i < length (truncateTo limit (srt (keptItems minPop items))) \<Longrightarrow>
   recommendRows srt seed limit minPop cc items ! i =
     recommendRow cc seed i (truncateTo limit (srt (keptItems minPop items)) ! i)"
  by (simp add: recommendRows_def Let_def nth_enumerate_eq)

lemma mset_pair: "mset ys = {#a, b#} \<Longrightarrow> ys = [a, b] \<or> ys = [b, a]"
proof -
  assume m: "mset ys = {#a, b#}"
  then have "length ys = 2" by (metis size_mset size_add_mset size_empty numeral_2_eq_2)
  then obtain u v where ys: "ys = [u, v]"
    by (metis (no_types, opaque_lifting) length_0_conv length_Suc_conv numeral_2_eq_2)
  with m show ?thesis by (auto simp add: add_eq_conv_ex)
qed


lemma recommendRows_sorted_take:
  assumes "sortsBy recommendLess srt"
  shows "recommendRows srt seed (effectiveLimit limit) minPop cc items =
           map (\<lambda>(i, it). recommendRow cc seed i it)
             (enumerate 0 (take (nat (effectiveLimit limit)) (srt (keptItems minPop items))))"
  using effectiveLimit_positive [of limit]
  by (simp add: recommendRows_def Let_def truncateTo_positive)

lemma recommendRows_order:
  assumes srt: "sortsBy recommendLess srt"
    and ij: "i < j" "j < length (recommendRows srt seed lim minPop cc items)"
  shows "\<exists>(a::cmKeywordItem) (b::cmKeywordItem). Term (recommendRows srt seed lim minPop cc items ! i) = Name a \<and>
      RowPopularity (recommendRows srt seed lim minPop cc items ! i) = Some (Popularity a) \<and>
      Term (recommendRows srt seed lim minPop cc items ! j) = Name b \<and>
      RowPopularity (recommendRows srt seed lim minPop cc items ! j) = Some (Popularity b) \<and>
      (Popularity b < Popularity a \<or>
       Popularity a = Popularity b \<and> ToLower (Name a) \<le> ToLower (Name b))"
proof -
  let ?tk = "truncateTo lim (srt (keptItems minPop items))"
  from srt have "sorted_wrt (\<lambda>a b. \<not> recommendLess b a) (srt (keptItems minPop items))"
    by (simp add: sortsBy_def)
  then have sorted: "sorted_wrt (\<lambda>a b. \<not> recommendLess b a) ?tk"
    by (simp add: truncateTo_def sorted_wrt_take)
  from ij have j: "j < length ?tk" and i: "i < length ?tk"
    by (simp_all add: length_recommendRows)
  from sorted ij(1) j have "\<not> recommendLess (?tk ! j) (?tk ! i)"
    by (simp add: sorted_wrt_iff_nth_less)
  then have "Popularity (?tk ! j) < Popularity (?tk ! i) \<or>
      Popularity (?tk ! i) = Popularity (?tk ! j) \<and>
      ToLower (Name (?tk ! i)) \<le> ToLower (Name (?tk ! j))"
    by (auto simp add: recommendLess_def split: if_splits)
  moreover have "Term (recommendRows srt seed lim minPop cc items ! i) = Name (?tk ! i)"
    "RowPopularity (recommendRows srt seed lim minPop cc items ! i) = Some (Popularity (?tk ! i))"
    using i by (simp_all add: nth_recommendRows recommendRow_def)
  moreover have "Term (recommendRows srt seed lim minPop cc items ! j) = Name (?tk ! j)"
    "RowPopularity (recommendRows srt seed lim minPop cc items ! j) = Some (Popularity (?tk ! j))"
    using j by (simp_all add: nth_recommendRows recommendRow_def)
  ultimately show ?thesis by blast
qed

lemma recommendRows_example:
  assumes "sortsBy recommendLess srt"
  shows "recommendRows srt seed (effectiveLimit 2) 10 cc
       [\<lparr>ID = 1, Name = ''A'', Popularity = 5, MatchType = []\<rparr>,
        \<lparr>ID = 2, Name = ''B'', Popularity = 30, MatchType = []\<rparr>,
        \<lparr>ID = 3, Name = ''C'', Popularity = 20, MatchType = []\<rparr>] =
     [\<lparr>Country = cc, Seed = seed, Term = ''B'', RowPopularity = Some 30, RowMatchType = None,
       Rank = 1, Source = ''cm_api_v2''\<rparr>,
      \<lparr>Country = cc, Seed = seed, Term = ''C'', RowPopularity = Some 20, RowMatchType = None,
       Rank = 2, Source = ''cm_api_v2''\<rparr>]"
proof -
  let ?B = "\<lparr>ID = 2, Name = ''B'', Popularity = 30, MatchType = []\<rparr>"
  let ?C = "\<lparr>ID = 3, Name = ''C'', Popularity = 20, MatchType = []\<rparr>"
  have kept: "keptItems 10 [\<lparr>ID = 1, Name = ''A'', Popularity = 5, MatchType = []\<rparr>, ?B, ?C] =
      [?B, ?C]"
    by (simp add: keptItems_def TrimSpace_def isSpace_def)
  from assms have "mset (srt [?B, ?C]) = {#?B, ?C#}"
    and sorted: "sorted_wrt (\<lambda>a b. \<not> recommendLess b a) (srt [?B, ?C])"
    by (simp_all add: sortsBy_def)
  then have "srt [?B, ?C] = [?B, ?C] \<or> srt [?B, ?C] = [?C, ?B]"
    using mset_pair [of "srt [?B, ?C]" ?C ?B] by auto
  moreover have "recommendLess ?B ?C" by (simp add: recommendLess_def)
  ultimately have "srt [?B, ?C] = [?B, ?C]"
    using sorted by auto
  then show ?thesis
    by (simp add: recommendRows_def kept truncateTo_def effectiveLimit_def recommendRow_def
        matchTypePtr_def TrimSpace_def enumerate_eq_zip upt_rec)
qed

text \<open>
  C7, as stated, at two concrete inputs (with the insertion sort for \<open>sort.Slice\<close>): an
  item with a blank name and a popularity above the threshold yields no row, and with
  the limit \<open>0\<close> the rows are not truncated to no rows, for the limit in use is then 50.
\<close>

theorem C7_blank_name_and_limit_zero:
  "10 \<le> Popularity \<lparr>ID = 1, Name = '' '', Popularity = 50, MatchType = ''EXACT''\<rparr> \<and>
   recommendRows insertionSort ''plant'' (effectiveLimit 2) 10 ''US''
     [\<lparr>ID = 1, Name = '' '', Popularity = 50, MatchType = ''EXACT''\<rparr>] = [] \<and>
   recommendRows insertionSort ''plant'' (effectiveLimit 0) 10 ''US''
     [\<lparr>ID = 2, Name = ''B'', Popularity = 30, MatchType = []\<rparr>] =
     [\<lparr>Country = ''US'', Seed = ''plant'', Term = ''B'', RowPopularity = Some 30,
       RowMatchType = None, Rank = 1, Source = ''cm_api_v2''\<rparr>]"
  by code_simp

text \<open>
  C7, amended: whatever rearrangement \<open>sort.Slice\<close> makes, the rows of a country are
  made of the items with a popularity of at least the threshold and a name that is not
  blank: these, in an order in which no item is less than an earlier one (descending
  popularity, then ascending lower-cased name), cut after sorting to the limit, which is
  50 when the flag is not positive. The rank of a row is its position counted from 1.
  Items \<open>A\<close> 5, \<open>B\<close> 30, \<open>C\<close> 20 with limit 2 and threshold 10 yield \<open>B\<close> with rank 1 and
  \<open>C\<close> with rank 2.
\<close>

theorem C7_recommend_rows:
  assumes "sortsBy recommendLess srt"
  shows "(\<exists>ys. mset ys = mset (keptItems minPop items) \<and>
            sorted_wrt (\<lambda>a b. \<not> recommendLess b a) ys \<and>
            recommendRows srt seed (effectiveLimit limit) minPop cc items =
              map (\<lambda>(i, it). recommendRow cc seed i it)
                (enumerate 0 (take (nat (effectiveLimit limit)) ys))) \<and>
         length (recommendRows srt seed (effectiveLimit limit) minPop cc items) =
           min (length (keptItems minPop items)) (nat (effectiveLimit limit)) \<and>
         (\<forall>i < length (recommendRows srt seed (effectiveLimit limit) minPop cc items).
            Rank (recommendRows srt seed (effectiveLimit limit) minPop cc items ! i) = int i + 1) \<and>
         (\<forall>i j. i < j \<and> j < length (recommendRows srt seed (effectiveLimit limit) minPop cc items)
            \<longrightarrow> (\<exists>(a::cmKeywordItem) (b::cmKeywordItem).
              Term (recommendRows srt seed (effectiveLimit limit) minPop cc items ! i) = Name a \<and>
              RowPopularity (recommendRows srt seed (effectiveLimit limit) minPop cc items ! i) =
                Some (Popularity a) \<and>
              Term (recommendRows srt seed (effectiveLimit limit) minPop cc items ! j) = Name b \<and>
              RowPopularity (recommendRows srt seed (effectiveLimit limit) minPop cc items ! j) =
                Some (Popularity b) \<and>
              (Popularity b < Popularity a \<or>
               Popularity a = Popularity b \<and> ToLower (Name a) \<le> ToLower (Name b)))) \<and>
         recommendRows srt seed (effectiveLimit 2) 10 cc
           [\<lparr>ID = 1, Name = ''A'', Popularity = 5, MatchType = []\<rparr>,
            \<lparr>ID = 2, Name = ''B'', Popularity = 30, MatchType = []\<rparr>,
            \<lparr>ID = 3, Name = ''C'', Popularity = 20, MatchType = []\<rparr>] =
         [\<lparr>Country = cc, Seed = seed, Term = ''B'', RowPopularity = Some 30,
           RowMatchType = None, Rank = 1, Source = ''cm_api_v2''\<rparr>,
          \<lparr>Country = cc, Seed = seed, Term = ''C'', RowPopularity = Some 20,
           RowMatchType = None, Rank = 2, Source = ''cm_api_v2''\<rparr>]"
proof (intro conjI allI impI)
  let ?rows = "recommendRows srt seed (effectiveLimit limit) minPop cc items"
  let ?sorted = "srt (keptItems minPop items)"
  from assms have m: "mset ?sorted = mset (keptItems minPop items)"
    and s: "sorted_wrt (\<lambda>a b. \<not> recommendLess b a) ?sorted"
    by (simp_all add: sortsBy_def)
  from m have len: "length ?sorted = length (keptItems minPop items)"
    by (rule mset_eq_length)
  show "\<exists>ys. mset ys = mset (keptItems minPop items) \<and>
            sorted_wrt (\<lambda>a b. \<not> recommendLess b a) ys \<and>
            ?rows = map (\<lambda>(i, it). recommendRow cc seed i it)
                (enumerate 0 (take (nat (effectiveLimit limit)) ys))"
    using m s recommendRows_sorted_take [OF assms] by blast
  show "length ?rows = min (length (keptItems minPop items)) (nat (effectiveLimit limit))"
    using len by (simp add: recommendRows_sorted_take [OF assms])
  show "Rank (?rows ! i) = int i + 1" if "i < length ?rows" for i
    using that by (simp add: length_recommendRows nth_recommendRows recommendRow_def)
  show "\<exists>(a::cmKeywordItem) (b::cmKeywordItem). Term (?rows ! i) = Name a \<and> RowPopularity (?rows ! i) = Some (Popularity a) \<and>
      Term (?rows ! j) = Name b \<and> RowPopularity (?rows ! j) = Some (Popularity b) \<and>
      (Popularity b < Popularity a \<or>
       Popularity a = Popularity b \<and> ToLower (Name a) \<le> ToLower (Name b))"
    if "i < j \<and> j < length ?rows" for i j
    using that recommendRows_order [OF assms, of i j seed "effectiveLimit limit" minPop cc items]
    by blast
  show "recommendRows srt seed (effectiveLimit 2) 10 cc
           [\<lparr>ID = 1, Name = ''A'', Popularity = 5, MatchType = []\<rparr>,
            \<lparr>ID = 2, Name = ''B'', Popularity = 30, MatchType = []\<rparr>,
            \<lparr>ID = 3, Name = ''C'', Popularity = 20, MatchType = []\<rparr>] =
         [\<lparr>Country = cc, Seed = seed, Term = ''B'', RowPopularity = Some 30,
           RowMatchType = None, Rank = 1, Source = ''cm_api_v2''\<rparr>,
          \<lparr>Country = cc, Seed = seed, Term = ''C'', RowPopularity = Some 20,
           RowMatchType = None, Rank = 2, Source = ''cm_api_v2''\<rparr>]"
    by (rule recommendRows_example [OF assms])
qed

theorem C7_recommend_rows_witness:
  "length (recommendRows insertionSort ''plant'' (effectiveLimit 2) 10 ''US''
           [\<lparr>ID = 1, Name = ''A'', Popularity = 5, MatchType = []\<rparr>,
            \<lparr>ID = 2, Name = ''B'', Popularity = 30, MatchType = []\<rparr>,
            \<lparr>ID = 3, Name = ''C'', Popularity = 20, MatchType = []\<rparr>]) = 2 \<and>
   recommendRows insertionSort ''plant'' (effectiveLimit 2) 10 ''US''
           [\<lparr>ID = 1, Name = ''A'', Popularity = 5, MatchType = []\<rparr>,
            \<lparr>ID = 2, Name = ''B'', Popularity = 30, MatchType = []\<rparr>,
            \<lparr>ID = 3, Name = ''C'', Popularity = 20, MatchType = []\<rparr>] =
         [\<lparr>Country = ''US'', Seed = ''plant'', Term = ''B'', RowPopularity = Some 30,
           RowMatchType = None, Rank = 1, Source = ''cm_api_v2''\<rparr>,
          \<lparr>Country = ''US'', Seed = ''plant'', Term = ''C'', RowPopularity = Some 20,
           RowMatchType = None, Rank = 2, Source = ''cm_api_v2''\<rparr>]"
proof -
  have kept: "length (keptItems 10
           [\<lparr>ID = 1, Name = ''A'', Popularity = 5, MatchType = []\<rparr>,
            \<lparr>ID = 2, Name = ''B'', Popularity = 30, MatchType = []\<rparr>,
            \<lparr>ID = 3, Name = ''C'', Popularity = 20, MatchType = []\<rparr>]) = 2"
    by code_simp
  have lim: "nat (effectiveLimit 2) = 2"
    by (simp add: effectiveLimit_def)
  from C7_recommend_rows [OF sortsBy_insertionSort, of 10
      "[\<lparr>ID = 1, Name = ''A'', Popularity = 5, MatchType = []\<rparr>,
        \<lparr>ID = 2, Name = ''B'', Popularity = 30, MatchType = []\<rparr>,
        \<lparr>ID = 3, Name = ''C'', Popularity = 20, MatchType = []\<rparr>]" "''plant''" 2 "''US''"]
  have "length (recommendRows insertionSort ''plant'' (effectiveLimit 2) 10 ''US''
           [\<lparr>ID = 1, Name = ''A'', Popularity = 5, MatchType = []\<rparr>,
            \<lparr>ID = 2, Name = ''B'', Popularity = 30, MatchType = []\<rparr>,
            \<lparr>ID = 3, Name = ''C'', Popularity = 20, MatchType = []\<rparr>]) =
        min (length (keptItems 10
           [\<lparr>ID = 1, Name = ''A'', Popularity = 5, MatchType = []\<rparr>,
            \<lparr>ID = 2, Name = ''B'', Popularity = 30, MatchType = []\<rparr>,
            \<lparr>ID = 3, Name = ''C'', Popularity = 20, MatchType = []\<rparr>])) (nat (effectiveLimit 2))"
    and "recommendRows insertionSort ''plant'' (effectiveLimit 2) 10 ''US''
           [\<lparr>ID = 1, Name = ''A'', Popularity = 5, MatchType = []\<rparr>,
            \<lparr>ID = 2, Name = ''B'', Popularity = 30, MatchType = []\<rparr>,
            \<lparr>ID = 3, Name = ''C'', Popularity = 20, MatchType = []\<rparr>] =
         [\<lparr>Country = ''US'', Seed = ''plant'', Term = ''B'', RowPopularity = Some 30,
           RowMatchType = None, Rank = 1, Source = ''cm_api_v2''\<rparr>,
          \<lparr>Country = ''US'', Seed = ''plant'', Term = ''C'', RowPopularity = Some 20,
           RowMatchType = None, Rank = 2, Source = ''cm_api_v2''\<rparr>]"
    by blast+
  then show ?thesis
    using kept lim by simp
qed

text \<open>
  C10: whatever rearrangement \<open>sort.Slice\<close> makes and whatever the limit and the
  threshold, no row has a blank term, and the rows are those of the list without its
  items of blank name: such an item is dropped before the sort, the ranks and the cut.
\<close>

theorem C10_blank_names_dropped:
  assumes "sortsBy recommendLess srt"
  shows "(\<forall>row \<in> set (recommendRows srt seed lim minPop cc items). TrimSpace (Term row) \<noteq> []) \<and>
         recommendRows srt seed lim minPop cc items =
           recommendRows srt seed lim minPop cc
             (filter (\<lambda>it. TrimSpace (Name it) \<noteq> []) items)"
proof
  let ?tk = "truncateTo lim (srt (keptItems minPop items))"
  from assms have "mset (srt (keptItems minPop items)) = mset (keptItems minPop items)"
    by (simp add: sortsBy_def)
  then have "set (srt (keptItems minPop items)) = set (keptItems minPop items)"
    by (rule mset_eq_setD)
  with set_truncateTo [of lim "srt (keptItems minPop items)"]
  have sub: "set ?tk \<subseteq> set (keptItems minPop items)" by simp
  show "\<forall>row \<in> set (recommendRows srt seed lim minPop cc items). TrimSpace (Term row) \<noteq> []"
  proof
    fix row assume "row \<in> set (recommendRows srt seed lim minPop cc items)"
    then obtain i where i: "i < length ?tk" and row: "row = recommendRow cc seed i (?tk ! i)"
      by (auto simp add: in_set_conv_nth length_recommendRows nth_recommendRows)
    from i sub have "?tk ! i \<in> set (keptItems minPop items)"
      using nth_mem by blast
    then have "TrimSpace (Name (?tk ! i)) \<noteq> []"
      by (simp add: keptItems_def)
    with row show "TrimSpace (Term row) \<noteq> []"
      by (simp add: recommendRow_def)
  qed
  have "keptItems minPop (filter (\<lambda>it. TrimSpace (Name it) \<noteq> []) items) = keptItems minPop items"
    by (auto simp add: keptItems_def intro: filter_cong)
  then show "recommendRows srt seed lim minPop cc items =
      recommendRows srt seed lim minPop cc (filter (\<lambda>it. TrimSpace (Name it) \<noteq> []) items)"
    by (simp add: recommendRows_def)
qed

theorem C10_blank_names_dropped_witness:
  "list_all (\<lambda>row. TrimSpace (Term row) \<noteq> []) (recommendRows insertionSort ''plant'' 50 0 ''US''
       [\<lparr>ID = 1, Name = ''  '', Popularity = 99, MatchType = []\<rparr>,
        \<lparr>ID = 2, Name = ''B'', Popularity = 30, MatchType = []\<rparr>]) \<and>
   recommendRows insertionSort ''plant'' 50 0 ''US''
       [\<lparr>ID = 1, Name = ''  '', Popularity = 99, MatchType = []\<rparr>,
        \<lparr>ID = 2, Name = ''B'', Popularity = 30, MatchType = []\<rparr>] =
   recommendRows insertionSort ''plant'' 50 0 ''US''
       (filter (\<lambda>it. TrimSpace (Name it) \<noteq> [])
         [\<lparr>ID = 1, Name = ''  '', Popularity = 99, MatchType = []\<rparr>,
          \<lparr>ID = 2, Name = ''B'', Popularity = 30, MatchType = []\<rparr>])"
  using C10_blank_names_dropped [OF sortsBy_insertionSort, of "''plant''" 50 0 "''US''"
      "[\<lparr>ID = 1, Name = ''  '', Popularity = 99, MatchType = []\<rparr>,
        \<lparr>ID = 2, Name = ''B'', Popularity = 30, MatchType = []\<rparr>]"]
  unfolding list_all_iff by blast


section \<open>Loading the credential\<close>

lemma HasPrefix_append: "HasPrefix (p @ s) p"
  by (simp add: HasPrefix_iff)

text \<open>
  For every lower-casing: an explicit value (one that is not blank) decides the result
  whatever the file holds; a file that does not exist leaves the credential empty, which
  is the error of a missing cookie only when \<open>auto-cookie\<close> is off and otherwise the
  outcome of one refresh; a value of which the lower-cased copy does not start with
  \<open>cookie:\<close> is kept, and any other value loses its first seven bytes.
\<close>

lemma getCookieFlag_explicit:
  assumes "TrimSpace (cookieFlag flags) \<noteq> []"
  shows "getCookieFlag E lower readFile tr flags = getCookieFlag E lower readFile' tr flags"
  using assms by (simp add: getCookieFlag_def Let_def)

lemma getCookieFlag_missing_file:
  assumes "TrimSpace (cookieFlag flags) = []" and "TrimSpace (cookieFileFlag flags) \<noteq> []"
    and "readFile (cookieFileFlag flags) = ReadNotExist"
    and "\<not> HasPrefix (lower []) ''cookie:''"
  shows "getCookieFlag E lower readFile tr flags =
           (if autoCookieFlag flags then (refresh E tr, tr @ [EvRefresh])
            else (Inl ''--cookie (or --cookie-file) is required for this command'', tr))"
  using assms by (simp add: getCookieFlag_def stripCookiePrefix_def Let_def)

lemma stripCookiePrefix_cut:
  "stripCookiePrefix lower c =
     (if HasPrefix (lower c) ''cookie:'' then TrimSpace (drop 7 c) else c)"
  by (simp add: stripCookiePrefix_def eval_nat_numeral)

lemma TrimSpace_kelvinCookie: "TrimSpace kelvinCookie = kelvinCookie"
  unfolding kelvinCookie_def by code_simp

lemma lowerKelvin_kelvinCookie: "lowerKelvin kelvinCookie = ''cookie:a=b''"
  unfolding kelvinCookie_def by code_simp

lemma stripCookiePrefix_kelvinCookie: "stripCookiePrefix lowerKelvin kelvinCookie = ''e:a=b''"
  unfolding kelvinCookie_def by code_simp

lemma stripCookiePrefix_ascii: "stripCookiePrefix lowerKelvin ''Cookie:a=b'' = ''a=b''"
  by code_simp

text \<open>
  C8 at the value \<open>coo\<close>, Kelvin sign, \<open>ie:a=b\<close> of the flag \<open>--cookie\<close>. The
  lower-cased copy of the value is \<open>cookie:a=b\<close>: line 362 finds the prefix, which the
  value spells with the Kelvin sign for its \<open>k\<close>. Line 363 then cuts seven bytes of the
  value, in which the prefix has nine, and the credential is \<open>e:a=b\<close>: the prefix has
  not been stripped. The prefix in ASCII letters has seven bytes and is cut as a whole.
\<close>

theorem C8_prefix_cut_by_bytes:
  "lowerKelvin kelvinCookie = ''cookie:a=b'' \<and>
   getCookieFlag E lowerKelvin readFile tr
     \<lparr>cookieFlag = kelvinCookie, cookieFileFlag = file, autoCookieFlag = auto\<rparr> =
     (Inr ''e:a=b'', tr) \<and>
   getCookieFlag E lowerKelvin readFile tr
     \<lparr>cookieFlag = ''Cookie:a=b'', cookieFileFlag = file, autoCookieFlag = auto\<rparr> =
     (Inr ''a=b'', tr)"
proof (intro conjI)
  show "lowerKelvin kelvinCookie = ''cookie:a=b''"
    by (rule lowerKelvin_kelvinCookie)
  have "kelvinCookie \<noteq> []"
    by (simp add: kelvinCookie_def)
  then show "getCookieFlag E lowerKelvin readFile tr
     \<lparr>cookieFlag = kelvinCookie, cookieFileFlag = file, autoCookieFlag = auto\<rparr> =
     (Inr ''e:a=b'', tr)"
    by (simp add: getCookieFlag_def Let_def TrimSpace_kelvinCookie
        stripCookiePrefix_kelvinCookie)
  have t: "TrimSpace ''Cookie:a=b'' = ''Cookie:a=b''"
    by code_simp
  show "getCookieFlag E lowerKelvin readFile tr
     \<lparr>cookieFlag = ''Cookie:a=b'', cookieFileFlag = file, autoCookieFlag = auto\<rparr> =
     (Inr ''a=b'', tr)"
    by (simp add: getCookieFlag_def Let_def t stripCookiePrefix_ascii)
qed

section \<open>Resolving the target\<close>

lemma findAppStoreID_Some:
  "findAppStoreID s = Some ds \<Longrightarrow>
   (\<exists>pre post. s = pre @ ''id'' @ ds @ post) \<and> 5 \<le> length ds \<and> list_all isDigit ds"
proof (induction s)
  case Nil
  then show ?case by simp
next
  case (Cons c cs)
  show ?case
  proof (cases "HasPrefix (c # cs) ''id'' \<and> length (takeWhile isDigit (drop 2 (c # cs))) \<ge> 5")
    case True
    with Cons.prems have ds: "ds = takeWhile isDigit (drop 2 (c # cs))" by simp
    from True obtain t where t: "c # cs = ''id'' @ t" by (auto simp: HasPrefix_iff)
    then have "drop 2 (c # cs) = t" by simp
    with ds have "t = ds @ dropWhile isDigit t" by simp
    with t have "c # cs = [] @ ''id'' @ ds @ dropWhile isDigit t" by simp
    moreover have "list_all isDigit ds"
      unfolding ds list_all_iff by (auto dest: set_takeWhileD)
    ultimately show ?thesis using True ds by blast
  next
    case False
    with Cons.prems have "findAppStoreID cs = Some ds" by auto
    from Cons.IH [OF this] obtain pre post where "cs = pre @ ''id'' @ ds @ post"
      and rest: "5 \<le> length ds" "list_all isDigit ds" by blast
    then have "c # cs = (c # pre) @ ''id'' @ ds @ post" by simp
    with rest show ?thesis by blast
  qed
qed

lemma isDigit_not_space: "isDigit c \<Longrightarrow> \<not> isSpace c"
  by (auto simp add: isDigit_def isSpace_def)

lemma isDigit_not_sign: "isDigit c \<Longrightarrow> c \<noteq> CHR ''+'' \<and> c \<noteq> CHR ''-''"
  by (auto simp add: isDigit_def)

lemma ParseInt_digits:
  assumes "ds \<noteq> []" "list_all isDigit ds"
  shows "ParseInt ds = (if int64_range (decimalVal ds) then Some (decimalVal ds) else None)"
proof -
  from assms have "isDigit (hd ds)" by (cases ds) auto
  then have "hd ds \<noteq> CHR ''+''" "hd ds \<noteq> CHR ''-''"
    using isDigit_not_sign by blast+
  with assms show ?thesis
    by (simp add: ParseInt_def Let_def)
qed

lemma parseAdamIDFromText_positive:
  assumes "0 < parseAdamIDFromText s"
  shows "\<exists>pre ds post. s = pre @ ''id'' @ ds @ post \<and> 5 \<le> length ds \<and> list_all isDigit ds \<and>
           parseAdamIDFromText s = decimalVal ds"
proof -
  from assms obtain ds where f: "findAppStoreID s = Some ds"
    by (auto simp add: parseAdamIDFromText_def split: option.splits)
  from findAppStoreID_Some [OF this] obtain pre post where
    s: "s = pre @ ''id'' @ ds @ post" and len: "5 \<le> length ds" and dig: "list_all isDigit ds"
    by blast
  from dig have "TrimSpace ds = ds"
    by (simp add: TrimSpace_def list_all_iff isDigit_not_space dropWhile_none)
  moreover from len have "ds \<noteq> []" by auto
  ultimately have "parseAdamIDFromText s = decimalVal ds"
    using assms f dig by (auto simp add: parseAdamIDFromText_def ParseInt_digits split: if_splits)
  with s len dig show ?thesis by blast
qed

text \<open>
  C6: the resolver takes the first hint that is present, in the order explicit id, URL,
  bundle id, app name. An explicit id above 0 is the result whatever the other hints are.
  Otherwise a URL hint that is not blank decides alone: the result is what
  \<open>parseAdamIDFromAppURL\<close> finds in it, and its failure is the resolver's failure.
  Otherwise the bundle id is looked up, otherwise the app name is searched, and with no
  hint at all the result is the not-provided error. In the URL hint a positive integer
  as the whole text is the id, without parsing a URL; else the id is the first positive
  one among: the pattern in the path, the pattern in the raw path, the integer of the
  query parameter \<open>id\<close>, the pattern in the text as given. The pattern is the leftmost
  \<open>id\<close> followed by five or more digits, and its value the number these digits spell.
  So \<open>https://x/id123456\<close> (whose path is \<open>/id123456\<close>) yields 123456, and so does the
  text \<open>123456\<close>.
\<close>

theorem C6_resolveAdamIDFromFlags:
  "(0 < adam_id flags \<longrightarrow>
      resolveAdamIDFromFlags urlParse itunes flags countries = Inr (adam_id flags)) \<and>
   (\<not> 0 < adam_id flags \<and> TrimSpace (app_url flags) \<noteq> [] \<longrightarrow>
      resolveAdamIDFromFlags urlParse itunes flags countries =
        (case parseAdamIDFromAppURL urlParse (app_url flags) of
           Inl e \<Rightarrow> Inl (ErrParseAppURL e) | Inr n \<Rightarrow> Inr n)) \<and>
   (\<not> 0 < adam_id flags \<and> TrimSpace (app_url flags) = [] \<and>
    TrimSpace (bundle_id flags) \<noteq> [] \<longrightarrow>
      resolveAdamIDFromFlags urlParse itunes flags countries =
        (case lookupAdamIDByBundleID itunes (TrimSpace (bundle_id flags))
                (adamLookupCountry flags countries) of
           Inl e \<Rightarrow> Inl (ErrBundleID e) | Inr (n, appName) \<Rightarrow> Inr n)) \<and>
   (\<not> 0 < adam_id flags \<and> TrimSpace (app_url flags) = [] \<and>
    TrimSpace (bundle_id flags) = [] \<and> TrimSpace (app_name flags) \<noteq> [] \<longrightarrow>
      resolveAdamIDFromFlags urlParse itunes flags countries =
        (case searchAdamIDByAppName itunes (TrimSpace (app_name flags))
                (adamLookupCountry flags countries) of
           Inl e \<Rightarrow> Inl (ErrAppName e) | Inr (n, resolvedName, resolvedBundleID) \<Rightarrow> Inr n)) \<and>
   (\<not> 0 < adam_id flags \<and> TrimSpace (app_url flags) = [] \<and>
    TrimSpace (bundle_id flags) = [] \<and> TrimSpace (app_name flags) = [] \<longrightarrow>
      resolveAdamIDFromFlags urlParse itunes flags countries = Inl ErrAdamIDNotProvided) \<and>
   (ParseInt (TrimSpace hint) = Some n \<and> 0 < n \<longrightarrow>
      parseAdamIDFromAppURL urlParse hint = Inr n) \<and>
   (TrimSpace hint \<noteq> [] \<and> positive (ParseInt (TrimSpace hint)) = None \<and>
    urlParse (if \<not> Contains (TrimSpace hint) ''://''
              then ''https://'' @ dropWhile (\<lambda>c. c = CHR ''/'') (TrimSpace hint)
              else TrimSpace hint) = Some u \<longrightarrow>
      parseAdamIDFromAppURL urlParse hint =
        (if 0 < parseAdamIDFromText (Path u) then Inr (parseAdamIDFromText (Path u))
         else if 0 < parseAdamIDFromText (RawPath u) then Inr (parseAdamIDFromText (RawPath u))
         else if TrimSpace (Query_Get u ''id'') \<noteq> [] \<and>
                 positive (ParseInt (TrimSpace (Query_Get u ''id''))) \<noteq> None
           then Inr (the (ParseInt (TrimSpace (Query_Get u ''id''))))
         else if 0 < parseAdamIDFromText hint then Inr (parseAdamIDFromText hint)
         else Inl (AdamIDNotFound hint))) \<and>
   (0 < parseAdamIDFromText s \<longrightarrow>
      (\<exists>pre ds post. s = pre @ ''id'' @ ds @ post \<and> 5 \<le> length ds \<and> list_all isDigit ds \<and>
         parseAdamIDFromText s = decimalVal ds)) \<and>
   (urlParse ''https://x/id123456'' = Some \<lparr>Path = ''/id123456'', RawPath = [], QueryValues = []\<rparr>
      \<longrightarrow> parseAdamIDFromAppURL urlParse ''https://x/id123456'' = Inr 123456) \<and>
   parseAdamIDFromAppURL urlParse ''123456'' = Inr 123456"
proof (intro conjI impI)
  show "resolveAdamIDFromFlags urlParse itunes flags countries = Inr (adam_id flags)"
    if "0 < adam_id flags"
    using that by (simp add: resolveAdamIDFromFlags_def)
  show "resolveAdamIDFromFlags urlParse itunes flags countries =
        (case parseAdamIDFromAppURL urlParse (app_url flags) of
           Inl e \<Rightarrow> Inl (ErrParseAppURL e) | Inr n \<Rightarrow> Inr n)"
    if "\<not> 0 < adam_id flags \<and> TrimSpace (app_url flags) \<noteq> []"
    using that by (simp add: resolveAdamIDFromFlags_def)
  show "resolveAdamIDFromFlags urlParse itunes flags countries =
        (case lookupAdamIDByBundleID itunes (TrimSpace (bundle_id flags))
                (adamLookupCountry flags countries) of
           Inl e \<Rightarrow> Inl (ErrBundleID e) | Inr (n, appName) \<Rightarrow> Inr n)"
    if "\<not> 0 < adam_id flags \<and> TrimSpace (app_url flags) = [] \<and>
      TrimSpace (bundle_id flags) \<noteq> []"
    using that by (simp add: resolveAdamIDFromFlags_def Let_def)
  show "resolveAdamIDFromFlags urlParse itunes flags countries =
        (case searchAdamIDByAppName itunes (TrimSpace (app_name flags))
                (adamLookupCountry flags countries) of
           Inl e \<Rightarrow> Inl (ErrAppName e) | Inr (n, resolvedName, resolvedBundleID) \<Rightarrow> Inr n)"
    if "\<not> 0 < adam_id flags \<and> TrimSpace (app_url flags) = [] \<and>
      TrimSpace (bundle_id flags) = [] \<and> TrimSpace (app_name flags) \<noteq> []"
    using that by (simp add: resolveAdamIDFromFlags_def Let_def)
  show "resolveAdamIDFromFlags urlParse itunes flags countries = Inl ErrAdamIDNotProvided"
    if "\<not> 0 < adam_id flags \<and> TrimSpace (app_url flags) = [] \<and>
      TrimSpace (bundle_id flags) = [] \<and> TrimSpace (app_name flags) = []"
    using that by (simp add: resolveAdamIDFromFlags_def Let_def)
  show "parseAdamIDFromAppURL urlParse hint = Inr n"
    if "ParseInt (TrimSpace hint) = Some n \<and> 0 < n"
  proof -
    from that have "TrimSpace hint \<noteq> []"
      by (auto simp add: ParseInt_def)
    with that show ?thesis
      by (simp add: parseAdamIDFromAppURL_def Let_def positive_def)
  qed
  show "parseAdamIDFromAppURL urlParse hint =
        (if 0 < parseAdamIDFromText (Path u) then Inr (parseAdamIDFromText (Path u))
         else if 0 < parseAdamIDFromText (RawPath u) then Inr (parseAdamIDFromText (RawPath u))
         else if TrimSpace (Query_Get u ''id'') \<noteq> [] \<and>
                 positive (ParseInt (TrimSpace (Query_Get u ''id''))) \<noteq> None
           then Inr (the (ParseInt (TrimSpace (Query_Get u ''id''))))
         else if 0 < parseAdamIDFromText hint then Inr (parseAdamIDFromText hint)
         else Inl (AdamIDNotFound hint))"
    if "TrimSpace hint \<noteq> [] \<and> positive (ParseInt (TrimSpace hint)) = None \<and>
      urlParse (if \<not> Contains (TrimSpace hint) ''://''
              then ''https://'' @ dropWhile (\<lambda>c. c = CHR ''/'') (TrimSpace hint)
              else TrimSpace hint) = Some u"
    using that
    by (auto simp add: parseAdamIDFromAppURL_def Let_def positive_def
        split: option.splits if_splits)
  show "\<exists>pre ds post. s = pre @ ''id'' @ ds @ post \<and> 5 \<le> length ds \<and> list_all isDigit ds \<and>
         parseAdamIDFromText s = decimalVal ds"
    if "0 < parseAdamIDFromText s"
    using that by (rule parseAdamIDFromText_positive)
  show "parseAdamIDFromAppURL urlParse ''https://x/id123456'' = Inr 123456"
    if u: "urlParse ''https://x/id123456'' =
      Some \<lparr>Path = ''/id123456'', RawPath = [], QueryValues = []\<rparr>"
  proof -
    have t: "TrimSpace ''https://x/id123456'' = ''https://x/id123456''"
      "ParseInt ''https://x/id123456'' = None" "Contains ''https://x/id123456'' ''://''"
      "parseAdamIDFromText ''/id123456'' = 123456"
      by code_simp+
    show ?thesis
      by (simp add: parseAdamIDFromAppURL_def Let_def positive_def t u)
  qed
  show "parseAdamIDFromAppURL urlParse ''123456'' = Inr 123456"
    by code_simp
qed

theorem C6_resolveAdamIDFromFlags_witness:
  "resolveAdamIDFromFlags (\<lambda>s. None) (\<lambda>endpoint q. Inl ''offline'')
     \<lparr>adam_id = 999, app_url = ''https://x/id123456'', bundle_id = ''com.a.b'',
      app_name = ''Plant'', adam_country = []\<rparr> [''US''] = Inr 999 \<and>
   resolveAdamIDFromFlags
     (\<lambda>s. if s = ''https://apps.apple.com/us/app/your-app/id1234567890''
           then Some \<lparr>Path = ''/us/app/your-app/id1234567890'', RawPath = [], QueryValues = []\<rparr>
           else None)
     (\<lambda>endpoint q. Inl ''offline'')
     \<lparr>adam_id = 0, app_url = ''apps.apple.com/us/app/your-app/id1234567890'',
      bundle_id = ''com.a.b'', app_name = ''Plant'', adam_country = []\<rparr> [''US''] =
     Inr 1234567890 \<and>
   resolveAdamIDFromFlags (\<lambda>s. None) (\<lambda>endpoint q. Inl ''offline'')
     \<lparr>adam_id = 0, app_url = '' 123456 '', bundle_id = [], app_name = [],
      adam_country = []\<rparr> [''US''] = Inr 123456 \<and>
   resolveAdamIDFromFlags (\<lambda>s. None)
     (\<lambda>endpoint q. Inr [\<lparr>TrackID = 0, TrackName = ''x'', BundleID = ''com.a.b''\<rparr>,
                       \<lparr>TrackID = 42, TrackName = ''Other'', BundleID = ''com.o''\<rparr>,
                       \<lparr>TrackID = 77, TrackName = '' Plant '', BundleID = ''COM.A.B''\<rparr>])
     \<lparr>adam_id = 0, app_url = '' '', bundle_id = '' com.a.b'', app_name = ''Plant'',
      adam_country = []\<rparr> [''US''] = Inr 77 \<and>
   resolveAdamIDFromFlags (\<lambda>s. None) (\<lambda>endpoint q. Inl ''offline'')
     \<lparr>adam_id = 0, app_url = [], bundle_id = [], app_name = '' '',
      adam_country = []\<rparr> [''US''] = Inl ErrAdamIDNotProvided"
proof -
  let ?P = "\<lambda>s. if s = ''https://apps.apple.com/us/app/your-app/id1234567890''
           then Some \<lparr>Path = ''/us/app/your-app/id1234567890'', RawPath = [], QueryValues = []\<rparr>
           else None"
  let ?off = "\<lambda>(endpoint::string) (q::(string \<times> string) list). Inl ''offline'' :: string + itunesAppEntry list"
  let ?store = "\<lambda>(endpoint::string) (q::(string \<times> string) list).
      Inr [\<lparr>TrackID = 0, TrackName = ''x'', BundleID = ''com.a.b''\<rparr>,
           \<lparr>TrackID = 42, TrackName = ''Other'', BundleID = ''com.o''\<rparr>,
           \<lparr>TrackID = 77, TrackName = '' Plant '', BundleID = ''COM.A.B''\<rparr>] :: string + itunesAppEntry list"
  let ?f1 = "\<lparr>adam_id = 999, app_url = ''https://x/id123456'', bundle_id = ''com.a.b'',
      app_name = ''Plant'', adam_country = []\<rparr>"
  let ?f2 = "\<lparr>adam_id = 0, app_url = ''apps.apple.com/us/app/your-app/id1234567890'',
      bundle_id = ''com.a.b'', app_name = ''Plant'', adam_country = []\<rparr>"
  let ?f3 = "\<lparr>adam_id = 0, app_url = '' 123456 '', bundle_id = [], app_name = [],
      adam_country = []\<rparr>"
  let ?f4 = "\<lparr>adam_id = 0, app_url = '' '', bundle_id = '' com.a.b'', app_name = ''Plant'',
      adam_country = []\<rparr>"
  let ?f5 = "\<lparr>adam_id = 0, app_url = [], bundle_id = [], app_name = '' '',
      adam_country = []\<rparr>"
  have a: "resolveAdamIDFromFlags (\<lambda>s. None) ?off ?f1 [''US''] = Inr 999"
    using C6_resolveAdamIDFromFlags [of ?f1 "\<lambda>s. None" ?off "[''US'']"] by simp
  have u2: "TrimSpace (app_url ?f2) \<noteq> []"
    "parseAdamIDFromAppURL ?P (app_url ?f2) = Inr 1234567890"
    by code_simp+
  have b: "resolveAdamIDFromFlags ?P ?off ?f2 [''US''] = Inr 1234567890"
    using C6_resolveAdamIDFromFlags [of ?f2 ?P ?off "[''US'']"] u2 by simp
  have u3: "TrimSpace (app_url ?f3) \<noteq> []"
    "parseAdamIDFromAppURL (\<lambda>s. None) (app_url ?f3) = Inr 123456"
    by code_simp+
  have c: "resolveAdamIDFromFlags (\<lambda>s. None) ?off ?f3 [''US''] = Inr 123456"
    using C6_resolveAdamIDFromFlags [of ?f3 "\<lambda>s. None" ?off "[''US'']"] u3 by simp
  have u4: "TrimSpace (app_url ?f4) = []" "TrimSpace (bundle_id ?f4) \<noteq> []"
    "lookupAdamIDByBundleID ?store (TrimSpace (bundle_id ?f4))
       (adamLookupCountry ?f4 [''US'']) = Inr (77, ''Plant'')"
    by code_simp+
  have d: "resolveAdamIDFromFlags (\<lambda>s. None) ?store ?f4 [''US''] = Inr 77"
    using C6_resolveAdamIDFromFlags [of ?f4 "\<lambda>s. None" ?store "[''US'']"] u4 by simp
  have u5: "TrimSpace (app_url ?f5) = []" "TrimSpace (bundle_id ?f5) = []"
    "TrimSpace (app_name ?f5) = []"
    by code_simp+
  have e: "resolveAdamIDFromFlags (\<lambda>s. None) ?off ?f5 [''US''] = Inl ErrAdamIDNotProvided"
    using C6_resolveAdamIDFromFlags [of ?f5 "\<lambda>s. None" ?off "[''US'']"] u5 by simp
  from a b c d e show ?thesis by blast
qed


section \<open>The retry loop\<close>

lemma apiCalls_snoc:
  "apiCalls (tr @ [ev]) = apiCalls tr + (if isApiCall ev then 1 else 0)"
  by (simp add: apiCalls_def)

lemma discoveryCalls_snoc:
  "discoveryCalls (tr @ [ev]) = discoveryCalls tr + (if isDiscoveryCall ev then 1 else 0)"
  by (simp add: discoveryCalls_def)

lemma refreshes_snoc:
  "refreshes (tr @ [ev]) = refreshes tr + (if ev = EvRefresh then 1 else 0)"
  by (simp add: refreshes_def)

lemma fallbacks_snoc:
  "fallbacks (tr @ [ev]) = fallbacks tr + (if ev = EvFallback then 1 else 0)"
  by (simp add: fallbacks_def)

lemmas tally_snoc = apiCalls_snoc discoveryCalls_snoc refreshes_snoc fallbacks_snoc

lemma refresh_error_not_owned:
  "isCMRefreshError err \<Longrightarrow> \<not> isCMNoUserOwnedAppsError err"
  by (auto simp add: isCMRefreshError_def isCMNoUserOwnedAppsError_def Let_def
      split: option.splits if_splits)

text \<open>What one call of the keyword API, of the campaign list and of the discovery add.\<close>

lemma postsOnceD:
  assumes "postsOnce call" and "call tr cookie adamID cc = (r, t)"
  shows "apiCalls t = apiCalls tr + 1 \<and> discoveryCalls t = discoveryCalls tr \<and>
         refreshes t = refreshes tr \<and> fallbacks t = fallbacks tr"
proof -
  from assms(1) obtain req where "snd (call tr cookie adamID cc) = tr @ [EvHttp req]"
    and "Method req = ''POST''"
    unfolding postsOnce_def by blast
  with assms(2) show ?thesis by (simp add: tally_snoc)
qed

lemma postsOnce_callPopularities: "postsOnce (callPopularities E extraHeaders keywords)"
  by (simp add: postsOnce_def callPopularities_def cmKeywordPopularities_def cmPostJSON_def
      Let_def split: sum.splits)

lemma postsOnce_callRecommendations: "postsOnce (callRecommendations E extraHeaders seed)"
  by (simp add: postsOnce_def callRecommendations_def cmKeywordRecommendation_def cmPostJSON_def
      Let_def split: sum.splits)

lemma cmDiscoverOwnedAdamID_tally:
  assumes "cmDiscoverOwnedAdamID E tr cookie extraHeaders = (r, t)"
  shows "apiCalls t = apiCalls tr \<and> discoveryCalls t = discoveryCalls tr + 1 \<and>
         refreshes t = refreshes tr \<and> fallbacks t = fallbacks tr"
  using assms
  by (auto simp add: cmDiscoverOwnedAdamID_def cmCampaignsFind_def cmGetJSON_def Let_def
      tally_snoc split: sum.splits option.splits)

lemma discoverOwnedAdamIDWithRefresh_tally:
  assumes "discoverOwnedAdamIDWithRefresh E tr cookie extraHeaders autoCookie = (r, t)"
  shows "apiCalls t = apiCalls tr \<and> fallbacks t = fallbacks tr \<and>
         discoveryCalls tr + 1 \<le> discoveryCalls t \<and> discoveryCalls t \<le> discoveryCalls tr + 2 \<and>
         refreshes t \<le> refreshes tr + 1"
proof -
  obtain r1 t1 where d1: "cmDiscoverOwnedAdamID E tr cookie extraHeaders = (r1, t1)"
    by (cases "cmDiscoverOwnedAdamID E tr cookie extraHeaders")
  note n1 = cmDiscoverOwnedAdamID_tally [OF d1]
  show ?thesis
  proof (cases r1)
    case (Inr found)
    with assms d1 n1 show ?thesis
      by (auto simp add: discoverOwnedAdamIDWithRefresh_def split: prod.splits)
  next
    case (Inl e)
    show ?thesis
    proof (cases "autoCookie \<and> isCMRefreshError (Some e)")
      case False
      with assms d1 n1 Inl show ?thesis
        by (auto simp add: discoverOwnedAdamIDWithRefresh_def)
    next
      case True
      show ?thesis
      proof (cases "refresh E t1")
        case (Inl re)
        with assms d1 n1 \<open>r1 = Inl e\<close> True show ?thesis
          by (auto simp add: discoverOwnedAdamIDWithRefresh_def tally_snoc)
      next
        case (Inr c)
        obtain r2 t2 where d2: "cmDiscoverOwnedAdamID E (t1 @ [EvRefresh]) c extraHeaders = (r2, t2)"
          by (cases "cmDiscoverOwnedAdamID E (t1 @ [EvRefresh]) c extraHeaders")
        note n2 = cmDiscoverOwnedAdamID_tally [OF d2]
        from assms d1 d2 \<open>r1 = Inl e\<close> True Inr have "t = t2"
          by (auto simp add: discoverOwnedAdamIDWithRefresh_def split: sum.splits prod.splits)
        with n1 n2 show ?thesis by (simp add: tally_snoc)
      qed
    qed
  qed
qed

lemma discoverOwnedAdamIDWithRefresh_succeeds:
  assumes "discoverySucceeds E extraHeaders"
  shows "\<exists>owned t. discoverOwnedAdamIDWithRefresh E tr cookie extraHeaders autoCookie =
           (Inr (owned, cookie), t) \<and>
         apiCalls t = apiCalls tr \<and> fallbacks t = fallbacks tr \<and>
         discoveryCalls t = discoveryCalls tr + 1 \<and> refreshes t = refreshes tr"
proof -
  from assms obtain found where
    f: "fst (cmDiscoverOwnedAdamID E tr cookie extraHeaders) = Inr found"
    unfolding discoverySucceeds_def by blast
  then obtain t where d: "cmDiscoverOwnedAdamID E tr cookie extraHeaders = (Inr found, t)"
    by (cases "cmDiscoverOwnedAdamID E tr cookie extraHeaders") simp
  from cmDiscoverOwnedAdamID_tally [OF d] d show ?thesis
    by (cases found) (simp add: discoverOwnedAdamIDWithRefresh_def)
qed


text \<open>The two retries of an iteration, for any behaviour of the outside.\<close>

lemma callWithRefresh_tally:
  assumes post: "postsOnce call"
    and run: "callWithRefresh E autoCookie call cc st = (a, st')"
  shows "ls_attempted st' = ls_attempted st \<and> ls_out st' = ls_out st \<and>
         fallbacks (ls_trace st') = fallbacks (ls_trace st) \<and>
         discoveryCalls (ls_trace st') = discoveryCalls (ls_trace st) \<and>
         refreshes (ls_trace st') \<le> refreshes (ls_trace st) + 1"
proof -
  obtain r1 t1 where c1: "call (ls_trace st) (ls_cookie st) (ls_adamID st) cc = (r1, t1)"
    by (cases "call (ls_trace st) (ls_cookie st) (ls_adamID st) cc")
  note n1 = postsOnceD [OF post c1]
  show ?thesis
  proof (cases r1)
    case (Inr items)
    with run c1 n1 show ?thesis
      by (auto simp add: callWithRefresh_def)
  next
    case (Inl e)
    show ?thesis
    proof (cases "autoCookie \<and> isCMRefreshError (Some e)")
      case False
      with run c1 n1 Inl show ?thesis
        by (auto simp add: callWithRefresh_def)
    next
      case True
      show ?thesis
      proof (cases "refresh E t1")
        case (Inl re)
        with run c1 n1 \<open>r1 = Inl e\<close> True show ?thesis
          by (auto simp add: callWithRefresh_def tally_snoc)
      next
        case (Inr c)
        obtain r2 t2 where c2: "call (t1 @ [EvRefresh]) c (ls_adamID st) cc = (r2, t2)"
          by (cases "call (t1 @ [EvRefresh]) c (ls_adamID st) cc")
        note n2 = postsOnceD [OF post c2]
        from run c1 c2 \<open>r1 = Inl e\<close> True Inr
        have "st' = st\<lparr>ls_cookie := c, ls_trace := t2\<rparr>"
          by (auto simp add: callWithRefresh_def)
        with n1 n2 show ?thesis by (simp add: tally_snoc)
      qed
    qed
  qed
qed

lemma callWithFallback_tally:
  assumes post: "postsOnce call"
    and run: "callWithFallback E autoCookie extraHeaders call cc (a, st) = (a', st')"
  shows "ls_out st' = ls_out st \<and>
         fallbacks (ls_trace st') + fallbackLeft st' \<le> fallbacks (ls_trace st) + fallbackLeft st \<and>
         discoveryCalls (ls_trace st') + 2 * fallbackLeft st' \<le>
           discoveryCalls (ls_trace st) + 2 * fallbackLeft st \<and>
         refreshes (ls_trace st') + fallbackLeft st' \<le> refreshes (ls_trace st) + fallbackLeft st"
proof (cases "\<exists>e. a = Got (Inl e) \<and> \<not> ls_attempted st \<and> isCMNoUserOwnedAppsError (Some e)")
  case False
  with run have "a' = a \<and> st' = st"
    by (auto simp add: callWithFallback_def split: attempt.splits sum.splits)
  then show ?thesis by simp
next
  case True
  then obtain e where a: "a = Got (Inl e)" and na: "\<not> ls_attempted st"
    and no: "isCMNoUserOwnedAppsError (Some e)" by blast
  let ?st1 = "st\<lparr>ls_attempted := True, ls_trace := ls_trace st @ [EvFallback]\<rparr>"
  obtain r t where d: "discoverOwnedAdamIDWithRefresh E (ls_trace st @ [EvFallback])
      (ls_cookie st) extraHeaders autoCookie = (r, t)"
    by (cases "discoverOwnedAdamIDWithRefresh E (ls_trace st @ [EvFallback])
      (ls_cookie st) extraHeaders autoCookie")
  note nd = discoverOwnedAdamIDWithRefresh_tally [OF d]
  show ?thesis
  proof (cases r)
    case (Inl discoverErr)
    with run a na no d have "st' = ?st1\<lparr>ls_trace := t\<rparr>"
      by (auto simp add: callWithFallback_def Let_def)
    with nd na show ?thesis
      by (simp add: fallbackLeft_def tally_snoc)
  next
    case (Inr found)
    obtain ownedAdamID updatedCookie where found: "found = (ownedAdamID, updatedCookie)"
      by (cases found)
    let ?adam = "if ownedAdamID > 0 \<and> ownedAdamID \<noteq> ls_adamID st then ownedAdamID
                 else ls_adamID st"
    obtain r3 t3 where c3: "call t updatedCookie ?adam cc = (r3, t3)"
      by (cases "call t updatedCookie ?adam cc")
    note n3 = postsOnceD [OF post c3]
    from run a na no d Inr found c3
    have "st' = ?st1\<lparr>ls_adamID := ?adam, ls_cookie := updatedCookie, ls_trace := t3\<rparr>"
      by (auto simp add: callWithFallback_def Let_def)
    with nd n3 na show ?thesis
      by (simp add: fallbackLeft_def tally_snoc)
  qed
qed

lemma iteration_tally:
  assumes post: "postsOnce call"
    and run: "iteration E autoCookie extraHeaders call rows st cc = (err, st')"
  shows "fallbacks (ls_trace st') + fallbackLeft st' \<le> fallbacks (ls_trace st) + fallbackLeft st \<and>
         discoveryCalls (ls_trace st') + 2 * fallbackLeft st' \<le>
           discoveryCalls (ls_trace st) + 2 * fallbackLeft st \<and>
         refreshes (ls_trace st') + fallbackLeft st' \<le>
           refreshes (ls_trace st) + fallbackLeft st + 1"
proof -
  obtain a1 st1 where s1: "callWithRefresh E autoCookie call cc st = (a1, st1)"
    by (cases "callWithRefresh E autoCookie call cc st")
  obtain a2 st2 where s2: "callWithFallback E autoCookie extraHeaders call cc (a1, st1) = (a2, st2)"
    by (cases "callWithFallback E autoCookie extraHeaders call cc (a1, st1)")
  note n1 = callWithRefresh_tally [OF post s1]
  note n2 = callWithFallback_tally [OF post s2]
  from n1 have left: "fallbackLeft st1 = fallbackLeft st"
    by (simp add: fallbackLeft_def)
  from run s1 s2 have "ls_trace st' = ls_trace st2 \<and> ls_attempted st' = ls_attempted st2"
    by (auto simp add: iteration_def split: attempt.splits sum.splits)
  then have "ls_trace st' = ls_trace st2" "fallbackLeft st' = fallbackLeft st2"
    by (simp_all add: fallbackLeft_def)
  with n1 n2 left show ?thesis by simp
qed

lemma runCountries_tally:
  assumes post: "postsOnce call"
  shows "runCountries E autoCookie extraHeaders call rows countries st = (err, st') \<Longrightarrow>
         fallbacks (ls_trace st') + fallbackLeft st' \<le> fallbacks (ls_trace st) + fallbackLeft st \<and>
         discoveryCalls (ls_trace st') + 2 * fallbackLeft st' \<le>
           discoveryCalls (ls_trace st) + 2 * fallbackLeft st \<and>
         refreshes (ls_trace st') + fallbackLeft st' \<le>
           refreshes (ls_trace st) + fallbackLeft st + length countries"
proof (induction countries arbitrary: st)
  case Nil
  then show ?case by simp
next
  case (Cons cc ccs)
  obtain e1 st1 where it: "iteration E autoCookie extraHeaders call rows st cc = (e1, st1)"
    by (cases "iteration E autoCookie extraHeaders call rows st cc")
  note n1 = iteration_tally [OF post it]
  show ?case
  proof (cases e1)
    case (Some e)
    with Cons.prems it have "st' = st1" by simp
    with n1 show ?thesis by simp
  next
    case None
    with Cons.prems it have "runCountries E autoCookie extraHeaders call rows ccs st1 = (err, st')"
      by simp
    from Cons.IH [OF this] n1 show ?thesis by simp
  qed
qed

lemma loop_bounds:
  assumes post: "postsOnce call"
  shows "fallbacks (ls_trace (snd (runCountries E autoCookie extraHeaders call rows countries
           (loopStart cookie adamID tr0)))) \<le> fallbacks tr0 + 1 \<and>
         discoveryCalls (ls_trace (snd (runCountries E autoCookie extraHeaders call rows countries
           (loopStart cookie adamID tr0)))) \<le> discoveryCalls tr0 + 2 \<and>
         refreshes (ls_trace (snd (runCountries E autoCookie extraHeaders call rows countries
           (loopStart cookie adamID tr0)))) \<le> refreshes tr0 + length countries + 1"
proof -
  obtain err st' where r: "runCountries E autoCookie extraHeaders call rows countries
      (loopStart cookie adamID tr0) = (err, st')"
    by (cases "runCountries E autoCookie extraHeaders call rows countries
      (loopStart cookie adamID tr0)")
  from r have s: "snd (runCountries E autoCookie extraHeaders call rows countries
      (loopStart cookie adamID tr0)) = st'"
    by simp
  have "ls_trace (loopStart cookie adamID tr0 :: 'a loop_state) = tr0"
    "fallbackLeft (loopStart cookie adamID tr0 :: 'a loop_state) = 1"
    by (simp_all add: loopStart_def fallbackLeft_def)
  with runCountries_tally [OF post r] show ?thesis
    unfolding s by simp
qed


text \<open>The loop against a keyword API that always reports an expired credential.\<close>

lemma runCountries_alwaysExpired:
  assumes post: "postsOnce call" and exp: "alwaysExpired call"
  shows "\<exists>e st'. runCountries E autoCookie extraHeaders call rows (cc # ccs) st = (Some e, st') \<and>
           ls_out st' = ls_out st \<and>
           discoveryCalls (ls_trace st') = discoveryCalls (ls_trace st) \<and>
           fallbacks (ls_trace st') = fallbacks (ls_trace st) \<and>
           (if autoCookie then
              (case refresh E (snd (call (ls_trace st) (ls_cookie st) (ls_adamID st) cc)) of
                 Inr c \<Rightarrow>
                   apiCalls (ls_trace st') = apiCalls (ls_trace st) + 2 \<and>
                   refreshes (ls_trace st') = refreshes (ls_trace st) + 1 \<and>
                   isCMRefreshError (Some e)
               | Inl re \<Rightarrow>
                   apiCalls (ls_trace st') = apiCalls (ls_trace st) + 1 \<and>
                   refreshes (ls_trace st') = refreshes (ls_trace st) + 1 \<and> e = re)
            else apiCalls (ls_trace st') = apiCalls (ls_trace st) + 1 \<and>
                 refreshes (ls_trace st') = refreshes (ls_trace st) \<and>
                 isCMRefreshError (Some e))"
proof -
  from exp obtain e1 where "fst (call (ls_trace st) (ls_cookie st) (ls_adamID st) cc) = Inl e1"
    and x1: "isCMRefreshError (Some e1)"
    unfolding alwaysExpired_def by blast
  then obtain t1 where c1: "call (ls_trace st) (ls_cookie st) (ls_adamID st) cc = (Inl e1, t1)"
    by (cases "call (ls_trace st) (ls_cookie st) (ls_adamID st) cc") simp
  note n1 = postsOnceD [OF post c1]
  from x1 have o1: "\<not> isCMNoUserOwnedAppsError (Some e1)"
    by (rule refresh_error_not_owned)
  show ?thesis
  proof (cases autoCookie)
    case False
    let ?st' = "st\<lparr>ls_trace := t1\<rparr>"
    have first: "callWithRefresh E autoCookie call cc st = (Got (Inl e1), ?st')"
      using c1 False by (simp add: callWithRefresh_def)
    from o1 have "callWithFallback E autoCookie extraHeaders call cc (Got (Inl e1), ?st') =
        (Got (Inl e1), ?st')"
      by (simp add: callWithFallback_def)
    with first have "iteration E autoCookie extraHeaders call rows st cc = (Some e1, ?st')"
      by (simp add: iteration_def)
    then have "runCountries E autoCookie extraHeaders call rows (cc # ccs) st = (Some e1, ?st')"
      by simp
    with n1 x1 False show ?thesis by simp
  next
    case True
    show ?thesis
    proof (cases "refresh E t1")
      case (Inl re)
      let ?st' = "st\<lparr>ls_cookie := [], ls_trace := t1 @ [EvRefresh]\<rparr>"
      have first: "callWithRefresh E autoCookie call cc st = (Returned re, ?st')"
        using c1 x1 True Inl by (simp add: callWithRefresh_def)
      have "callWithFallback E autoCookie extraHeaders call cc (Returned re, ?st') =
          (Returned re, ?st')"
        by (simp add: callWithFallback_def)
      with first have "iteration E autoCookie extraHeaders call rows st cc = (Some re, ?st')"
        by (simp add: iteration_def)
      then have "runCountries E autoCookie extraHeaders call rows (cc # ccs) st = (Some re, ?st')"
        by simp
      with n1 c1 True Inl show ?thesis by (simp add: tally_snoc)
    next
      case (Inr c)
      from exp obtain e2 where "fst (call (t1 @ [EvRefresh]) c (ls_adamID st) cc) = Inl e2"
        and x2: "isCMRefreshError (Some e2)"
        unfolding alwaysExpired_def by blast
      then obtain t2 where c2: "call (t1 @ [EvRefresh]) c (ls_adamID st) cc = (Inl e2, t2)"
        by (cases "call (t1 @ [EvRefresh]) c (ls_adamID st) cc") simp
      let ?st' = "st\<lparr>ls_cookie := c, ls_trace := t2\<rparr>"
      have first: "callWithRefresh E autoCookie call cc st = (Got (Inl e2), ?st')"
        using c1 x1 True Inr c2 by (simp add: callWithRefresh_def)
      from x2 have "\<not> isCMNoUserOwnedAppsError (Some e2)"
        by (rule refresh_error_not_owned)
      then have "callWithFallback E autoCookie extraHeaders call cc (Got (Inl e2), ?st') =
          (Got (Inl e2), ?st')"
        by (simp add: callWithFallback_def)
      with first have "iteration E autoCookie extraHeaders call rows st cc = (Some e2, ?st')"
        by (simp add: iteration_def)
      then have r: "runCountries E autoCookie extraHeaders call rows (cc # ccs) st =
          (Some e2, ?st')"
        by simp
      from n1 postsOnceD [OF post c2]
      have "apiCalls t2 = apiCalls (ls_trace st) + 2 \<and> refreshes t2 = refreshes (ls_trace st) + 1 \<and>
          discoveryCalls t2 = discoveryCalls (ls_trace st) \<and> fallbacks t2 = fallbacks (ls_trace st)"
        by (simp add: tally_snoc)
      with r c1 True Inr x2 show ?thesis by simp
    qed
  qed
qed

text \<open>The loop against a keyword API that always reports an app that is not owned.\<close>

lemma runCountries_alwaysNotOwned:
  assumes post: "postsOnce call" and own: "alwaysNotOwned call"
    and fresh: "\<not> ls_attempted st"
  shows "\<exists>e st'. runCountries E autoCookie extraHeaders call rows (cc # ccs) st = (Some e, st') \<and>
           ls_out st' = ls_out st \<and>
           fallbacks (ls_trace st') = fallbacks (ls_trace st) + 1 \<and>
           (case discoverOwnedAdamIDWithRefresh E
                   (snd (call (ls_trace st) (ls_cookie st) (ls_adamID st) cc) @ [EvFallback])
                   (ls_cookie st) extraHeaders autoCookie of
              (Inl discoverErr, t) \<Rightarrow>
                e = ''adam-id '' @ itoa (ls_adamID st) @
                  '' is not accessible for this Apple Ads account, and auto-discovery failed: '' @
                  discoverErr \<and>
                apiCalls (ls_trace st') = apiCalls (ls_trace st) + 1 \<and> ls_trace st' = t
            | (Inr found, t) \<Rightarrow>
                isCMNoUserOwnedAppsError (Some e) \<and>
                apiCalls (ls_trace st') = apiCalls (ls_trace st) + 2 \<and>
                discoveryCalls (ls_trace st') = discoveryCalls t \<and>
                refreshes (ls_trace st') = refreshes t)"
proof -
  from own obtain e1 where "fst (call (ls_trace st) (ls_cookie st) (ls_adamID st) cc) = Inl e1"
    and x1: "isCMNoUserOwnedAppsError (Some e1)"
    unfolding alwaysNotOwned_def by blast
  then obtain t1 where c1: "call (ls_trace st) (ls_cookie st) (ls_adamID st) cc = (Inl e1, t1)"
    by (cases "call (ls_trace st) (ls_cookie st) (ls_adamID st) cc") simp
  note n1 = postsOnceD [OF post c1]
  from x1 have nr: "\<not> isCMRefreshError (Some e1)"
    using refresh_error_not_owned by blast
  let ?s1 = "st\<lparr>ls_trace := t1\<rparr>"
  have first: "callWithRefresh E autoCookie call cc st = (Got (Inl e1), ?s1)"
    using c1 nr by (simp add: callWithRefresh_def)
  obtain r t where d: "discoverOwnedAdamIDWithRefresh E (t1 @ [EvFallback]) (ls_cookie st)
      extraHeaders autoCookie = (r, t)"
    by (cases "discoverOwnedAdamIDWithRefresh E (t1 @ [EvFallback]) (ls_cookie st)
      extraHeaders autoCookie")
  note nd = discoverOwnedAdamIDWithRefresh_tally [OF d]
  show ?thesis
  proof (cases r)
    case (Inl discoverErr)
    let ?e = "''adam-id '' @ itoa (ls_adamID st) @
        '' is not accessible for this Apple Ads account, and auto-discovery failed: '' @
        discoverErr"
    let ?st' = "st\<lparr>ls_attempted := True, ls_trace := t\<rparr>"
    have "callWithFallback E autoCookie extraHeaders call cc (Got (Inl e1), ?s1) =
        (Returned ?e, ?st')"
      using fresh x1 d Inl by (simp add: callWithFallback_def Let_def)
    with first have "iteration E autoCookie extraHeaders call rows st cc = (Some ?e, ?st')"
      by (simp add: iteration_def)
    then have "runCountries E autoCookie extraHeaders call rows (cc # ccs) st = (Some ?e, ?st')"
      by simp
    with n1 nd c1 d Inl show ?thesis by (simp add: tally_snoc)
  next
    case (Inr found)
    obtain owned updated where found: "found = (owned, updated)"
      by (cases found)
    let ?adam = "if owned > 0 \<and> owned \<noteq> ls_adamID st then owned else ls_adamID st"
    from own obtain e2 where "fst (call t updated ?adam cc) = Inl e2"
      and x2: "isCMNoUserOwnedAppsError (Some e2)"
      unfolding alwaysNotOwned_def by blast
    then obtain t2 where c2: "call t updated ?adam cc = (Inl e2, t2)"
      by (cases "call t updated ?adam cc") simp
    let ?st' = "st\<lparr>ls_attempted := True, ls_adamID := ?adam, ls_cookie := updated,
        ls_trace := t2\<rparr>"
    have "callWithFallback E autoCookie extraHeaders call cc (Got (Inl e1), ?s1) =
        (Got (Inl e2), ?st')"
      using fresh x1 d Inr found c2
      by (cases "owned > 0 \<and> owned \<noteq> ls_adamID st") (auto simp add: callWithFallback_def Let_def)
    with first have "iteration E autoCookie extraHeaders call rows st cc = (Some e2, ?st')"
      by (simp add: iteration_def)
    then have r: "runCountries E autoCookie extraHeaders call rows (cc # ccs) st =
        (Some e2, ?st')"
      by simp
    from n1 postsOnceD [OF post c2] nd
    have "apiCalls t2 = apiCalls (ls_trace st) + 2 \<and> discoveryCalls t2 = discoveryCalls t \<and>
        fallbacks t2 = fallbacks (ls_trace st) + 1 \<and> refreshes t2 = refreshes t"
      by (simp add: tally_snoc)
    with r c1 d Inr found x2 show ?thesis by simp
  qed
qed

text \<open>The same for the loop from its start.\<close>

lemma loop_alwaysExpired:
  assumes post: "postsOnce call" and exp: "alwaysExpired call" and ne: "countries \<noteq> []"
  shows "\<exists>e st'. runCountries E autoCookie extraHeaders call rows countries
             (loopStart cookie adamID tr0) = (Some e, st') \<and>
           ls_out st' = [] \<and>
           discoveryCalls (ls_trace st') = discoveryCalls tr0 \<and>
           fallbacks (ls_trace st') = fallbacks tr0 \<and>
           (if autoCookie then
              (case refresh E (snd (call tr0 cookie adamID (hd countries))) of
                 Inr c \<Rightarrow>
                   apiCalls (ls_trace st') = apiCalls tr0 + 2 \<and>
                   refreshes (ls_trace st') = refreshes tr0 + 1 \<and> isCMRefreshError (Some e)
               | Inl re \<Rightarrow>
                   apiCalls (ls_trace st') = apiCalls tr0 + 1 \<and>
                   refreshes (ls_trace st') = refreshes tr0 + 1 \<and> e = re)
            else apiCalls (ls_trace st') = apiCalls tr0 + 1 \<and>
                 refreshes (ls_trace st') = refreshes tr0 \<and> isCMRefreshError (Some e))"
proof -
  from ne obtain cc ccs where cs: "countries = cc # ccs" by (cases countries) auto
  have s: "ls_trace (loopStart cookie adamID tr0 :: 'a loop_state) = tr0"
    "ls_cookie (loopStart cookie adamID tr0 :: 'a loop_state) = cookie"
    "ls_adamID (loopStart cookie adamID tr0 :: 'a loop_state) = adamID"
    "ls_out (loopStart cookie adamID tr0 :: 'a loop_state) = []"
    by (simp_all add: loopStart_def)
  have h: "hd (cc # ccs) = cc" by simp
  from runCountries_alwaysExpired [OF post exp, of E autoCookie extraHeaders rows cc ccs
      "loopStart cookie adamID tr0"]
  show ?thesis unfolding cs h s .
qed

lemma loop_alwaysNotOwned:
  assumes post: "postsOnce call" and own: "alwaysNotOwned call" and ne: "countries \<noteq> []"
  shows "\<exists>e st'. runCountries E autoCookie extraHeaders call rows countries
             (loopStart cookie adamID tr0) = (Some e, st') \<and>
           ls_out st' = [] \<and>
           fallbacks (ls_trace st') = fallbacks tr0 + 1 \<and>
           (case discoverOwnedAdamIDWithRefresh E
                   (snd (call tr0 cookie adamID (hd countries)) @ [EvFallback])
                   cookie extraHeaders autoCookie of
              (Inl discoverErr, t) \<Rightarrow>
                e = ''adam-id '' @ itoa adamID @
                  '' is not accessible for this Apple Ads account, and auto-discovery failed: '' @
                  discoverErr \<and>
                apiCalls (ls_trace st') = apiCalls tr0 + 1 \<and> ls_trace st' = t
            | (Inr found, t) \<Rightarrow>
                isCMNoUserOwnedAppsError (Some e) \<and>
                apiCalls (ls_trace st') = apiCalls tr0 + 2 \<and>
                discoveryCalls (ls_trace st') = discoveryCalls t \<and>
                refreshes (ls_trace st') = refreshes t)"
proof -
  from ne obtain cc ccs where cs: "countries = cc # ccs" by (cases countries) auto
  have s: "ls_trace (loopStart cookie adamID tr0 :: 'a loop_state) = tr0"
    "ls_cookie (loopStart cookie adamID tr0 :: 'a loop_state) = cookie"
    "ls_adamID (loopStart cookie adamID tr0 :: 'a loop_state) = adamID"
    "ls_out (loopStart cookie adamID tr0 :: 'a loop_state) = []"
    by (simp_all add: loopStart_def)
  have fresh: "\<not> ls_attempted (loopStart cookie adamID tr0 :: 'a loop_state)"
    by (simp add: loopStart_def)
  have h: "hd (cc # ccs) = cc" by simp
  from runCountries_alwaysNotOwned [OF post own fresh, of E autoCookie extraHeaders rows cc ccs]
  show ?thesis unfolding cs h s .
qed

text \<open>
  What the loop does to the counts against the two stubs, as the claims state it: \<open>R\<close>
  is the result of the loop.
\<close>

lemma expired_scenario:
  assumes post: "postsOnce call" and exp: "alwaysExpired call" and ne: "countries \<noteq> []"
    and R: "R = runCountries E autoCookie extraHeaders call rows countries
              (loopStart cookie adamID tr0)"
  shows "fst R \<noteq> None \<and> ls_out (snd R) = [] \<and>
         discoveryCalls (ls_trace (snd R)) = discoveryCalls tr0 \<and>
         fallbacks (ls_trace (snd R)) = fallbacks tr0 \<and>
         apiCalls (ls_trace (snd R)) \<le> apiCalls tr0 + 2 \<and>
         refreshes (ls_trace (snd R)) \<le> refreshes tr0 + 1 \<and>
         (if autoCookie then
            (case refresh E (snd (call tr0 cookie adamID (hd countries))) of
               Inr c \<Rightarrow>
                 apiCalls (ls_trace (snd R)) = apiCalls tr0 + 2 \<and>
                 refreshes (ls_trace (snd R)) = refreshes tr0 + 1 \<and>
                 (\<exists>e. fst R = Some e \<and> isCMRefreshError (Some e))
             | Inl re \<Rightarrow>
                 apiCalls (ls_trace (snd R)) = apiCalls tr0 + 1 \<and>
                 refreshes (ls_trace (snd R)) = refreshes tr0 + 1 \<and> fst R = Some re)
          else apiCalls (ls_trace (snd R)) = apiCalls tr0 + 1 \<and>
               refreshes (ls_trace (snd R)) = refreshes tr0 \<and>
               (\<exists>e. fst R = Some e \<and> isCMRefreshError (Some e)))"
proof -
  from loop_alwaysExpired [OF post exp ne, of E autoCookie extraHeaders rows cookie adamID tr0]
  obtain e st' where r: "R = (Some e, st')"
    and o: "ls_out st' = []" "discoveryCalls (ls_trace st') = discoveryCalls tr0"
      "fallbacks (ls_trace st') = fallbacks tr0"
    and c: "if autoCookie then
              (case refresh E (snd (call tr0 cookie adamID (hd countries))) of
                 Inr c \<Rightarrow>
                   apiCalls (ls_trace st') = apiCalls tr0 + 2 \<and>
                   refreshes (ls_trace st') = refreshes tr0 + 1 \<and> isCMRefreshError (Some e)
               | Inl re \<Rightarrow>
                   apiCalls (ls_trace st') = apiCalls tr0 + 1 \<and>
                   refreshes (ls_trace st') = refreshes tr0 + 1 \<and> e = re)
            else apiCalls (ls_trace st') = apiCalls tr0 + 1 \<and>
                 refreshes (ls_trace st') = refreshes tr0 \<and> isCMRefreshError (Some e)"
    unfolding R by blast
  from c show ?thesis
    unfolding r using o by (auto split: if_splits sum.splits)
qed

lemma notOwned_scenario:
  assumes post: "postsOnce call" and own: "alwaysNotOwned call" and ne: "countries \<noteq> []"
    and R: "R = runCountries E autoCookie extraHeaders call rows countries
              (loopStart cookie adamID tr0)"
    and D: "D = discoverOwnedAdamIDWithRefresh E
              (snd (call tr0 cookie adamID (hd countries)) @ [EvFallback])
              cookie extraHeaders autoCookie"
  shows "ls_out (snd R) = [] \<and>
         fallbacks (ls_trace (snd R)) = fallbacks tr0 + 1 \<and>
         discoveryCalls tr0 + 1 \<le> discoveryCalls (ls_trace (snd R)) \<and>
         discoveryCalls (ls_trace (snd R)) \<le> discoveryCalls tr0 + 2 \<and>
         refreshes (ls_trace (snd R)) \<le> refreshes tr0 + 1 \<and>
         (case fst D of
            Inl discoverErr \<Rightarrow>
              fst R = Some (''adam-id '' @ itoa adamID @
                '' is not accessible for this Apple Ads account, and auto-discovery failed: '' @
                discoverErr) \<and>
              apiCalls (ls_trace (snd R)) = apiCalls tr0 + 1
          | Inr found \<Rightarrow>
              (\<exists>e. fst R = Some e \<and> isCMNoUserOwnedAppsError (Some e)) \<and>
              apiCalls (ls_trace (snd R)) = apiCalls tr0 + 2) \<and>
         (discoverySucceeds E extraHeaders \<longrightarrow>
            (\<exists>e. fst R = Some e \<and> isCMNoUserOwnedAppsError (Some e)) \<and>
            apiCalls (ls_trace (snd R)) = apiCalls tr0 + 2 \<and>
            discoveryCalls (ls_trace (snd R)) = discoveryCalls tr0 + 1 \<and>
            refreshes (ls_trace (snd R)) = refreshes tr0)"
proof -
  obtain r1 t1 where c1: "call tr0 cookie adamID (hd countries) = (r1, t1)"
    by (cases "call tr0 cookie adamID (hd countries)")
  note n1 = postsOnceD [OF post c1]
  obtain rd td where d: "D = (rd, td)" by (cases D)
  from d D c1 have d': "discoverOwnedAdamIDWithRefresh E (t1 @ [EvFallback]) cookie extraHeaders
      autoCookie = (rd, td)" by simp
  note nd = discoverOwnedAdamIDWithRefresh_tally [OF d']
  note l = loop_alwaysNotOwned [OF post own ne, of E autoCookie extraHeaders rows cookie adamID
      tr0, folded R D]
  from l obtain e st' where r: "R = (Some e, st')"
    and o: "ls_out st' = []" "fallbacks (ls_trace st') = fallbacks tr0 + 1"
    and c: "case D of
              (Inl discoverErr, t) \<Rightarrow>
                e = ''adam-id '' @ itoa adamID @
                  '' is not accessible for this Apple Ads account, and auto-discovery failed: '' @
                  discoverErr \<and>
                apiCalls (ls_trace st') = apiCalls tr0 + 1 \<and> ls_trace st' = t
            | (Inr found, t) \<Rightarrow>
                isCMNoUserOwnedAppsError (Some e) \<and>
                apiCalls (ls_trace st') = apiCalls tr0 + 2 \<and>
                discoveryCalls (ls_trace st') = discoveryCalls t \<and>
                refreshes (ls_trace st') = refreshes t"
    by (elim exE conjE) (rule that, assumption+)
  have counts: "discoveryCalls (ls_trace st') = discoveryCalls td \<and>
      refreshes (ls_trace st') = refreshes td"
    using c unfolding d by (cases rd) auto
  have bounds: "discoveryCalls tr0 + 1 \<le> discoveryCalls (ls_trace st') \<and>
      discoveryCalls (ls_trace st') \<le> discoveryCalls tr0 + 2 \<and>
      refreshes (ls_trace st') \<le> refreshes tr0 + 1"
    using counts nd n1 by (simp add: tally_snoc)
  have outcome: "case fst D of
            Inl discoverErr \<Rightarrow>
              fst R = Some (''adam-id '' @ itoa adamID @
                '' is not accessible for this Apple Ads account, and auto-discovery failed: '' @
                discoverErr) \<and>
              apiCalls (ls_trace (snd R)) = apiCalls tr0 + 1
          | Inr found \<Rightarrow>
              (\<exists>e. fst R = Some e \<and> isCMNoUserOwnedAppsError (Some e)) \<and>
              apiCalls (ls_trace (snd R)) = apiCalls tr0 + 2"
    using c unfolding d r by (cases rd) auto
  have exact: "(\<exists>e. fst R = Some e \<and> isCMNoUserOwnedAppsError (Some e)) \<and>
      apiCalls (ls_trace (snd R)) = apiCalls tr0 + 2 \<and>
      discoveryCalls (ls_trace (snd R)) = discoveryCalls tr0 + 1 \<and>
      refreshes (ls_trace (snd R)) = refreshes tr0" if disc: "discoverySucceeds E extraHeaders"
  proof -
    from discoverOwnedAdamIDWithRefresh_succeeds [OF disc, of "t1 @ [EvFallback]" cookie
        autoCookie] d'
    obtain owned where rd: "rd = Inr (owned, cookie)"
      and td: "discoveryCalls td = discoveryCalls (t1 @ [EvFallback]) + 1"
        "refreshes td = refreshes (t1 @ [EvFallback])"
      by auto
    from c rd td n1 counts show ?thesis
      unfolding d r by (simp add: tally_snoc)
  qed
  from o bounds outcome exact show ?thesis
    unfolding r by simp
qed

text \<open>The steps of a command before its loop.\<close>

lemma getCookieFlag_tally:
  assumes "getCookieFlag E lower readFile tr flags = (r, t)"
  shows "apiCalls t = apiCalls tr \<and> discoveryCalls t = discoveryCalls tr \<and>
         fallbacks t = fallbacks tr \<and> refreshes tr \<le> refreshes t \<and>
         refreshes t \<le> refreshes tr + 1"
  using assms
  by (auto simp add: getCookieFlag_def Let_def tally_snoc
      split: if_splits sum.splits read_result.splits)

lemma resolveAdamIDForCMCommand_tally:
  assumes "resolveAdamIDForCMCommand E urlParse itunes flags countries cookie extraHeaders
             autoCookie tr = (r, t)"
  shows "apiCalls t = apiCalls tr \<and> fallbacks t = fallbacks tr \<and>
         (if resolveAdamIDFromFlags urlParse itunes flags countries = Inl ErrAdamIDNotProvided
          then discoveryCalls t \<le> discoveryCalls tr + 2 \<and> refreshes t \<le> refreshes tr + 1
          else t = tr)"
proof (cases "resolveAdamIDFromFlags urlParse itunes flags countries = Inl ErrAdamIDNotProvided")
  case False
  with assms show ?thesis
    by (auto simp add: resolveAdamIDForCMCommand_def split: sum.splits if_splits)
next
  case True
  obtain rd td where d: "discoverOwnedAdamIDWithRefresh E tr cookie extraHeaders autoCookie =
      (rd, td)"
    by (cases "discoverOwnedAdamIDWithRefresh E tr cookie extraHeaders autoCookie")
  from assms True d have "t = td"
    by (auto simp add: resolveAdamIDForCMCommand_def split: sum.splits prod.splits)
  with discoverOwnedAdamIDWithRefresh_tally [OF d] True show ?thesis by simp
qed

lemma resolveAdamIDForCMCommand_flags:
  assumes "resolveAdamIDFromFlags urlParse itunes flags countries = Inr adamID"
  shows "resolveAdamIDForCMCommand E urlParse itunes flags countries cookie extraHeaders
           autoCookie tr = (Inr (adamID, cookie), tr)"
  using assms by (simp add: resolveAdamIDForCMCommand_def)

lemma discover_alwaysExpired:
  assumes "discoveryAlwaysExpired E extraHeaders"
  shows "\<exists>e. fst (discoverOwnedAdamIDWithRefresh E tr cookie extraHeaders autoCookie) = Inl e"
proof -
  from assms obtain e1 where "fst (cmDiscoverOwnedAdamID E tr cookie extraHeaders) = Inl e1"
    and x1: "isCMRefreshError (Some e1)"
    unfolding discoveryAlwaysExpired_def by blast
  then obtain t1 where d1: "cmDiscoverOwnedAdamID E tr cookie extraHeaders = (Inl e1, t1)"
    by (cases "cmDiscoverOwnedAdamID E tr cookie extraHeaders") simp
  show ?thesis
  proof (cases "autoCookie")
    case False
    with d1 show ?thesis by (simp add: discoverOwnedAdamIDWithRefresh_def)
  next
    case True
    show ?thesis
    proof (cases "refresh E t1")
      case (Inl re)
      with d1 x1 True show ?thesis by (simp add: discoverOwnedAdamIDWithRefresh_def)
    next
      case (Inr c)
      from assms obtain e2 where
        "fst (cmDiscoverOwnedAdamID E (t1 @ [EvRefresh]) c extraHeaders) = Inl e2"
        unfolding discoveryAlwaysExpired_def by blast
      then obtain t2 where "cmDiscoverOwnedAdamID E (t1 @ [EvRefresh]) c extraHeaders =
          (Inl e2, t2)"
        by (cases "cmDiscoverOwnedAdamID E (t1 @ [EvRefresh]) c extraHeaders") simp
      with d1 x1 True Inr show ?thesis by (simp add: discoverOwnedAdamIDWithRefresh_def)
    qed
  qed
qed

lemma run_failed [simp]:
  "run_error (failed e tr) = Some e" "run_rows (failed e tr) = []" "run_trace (failed e tr) = tr"
  by (simp_all add: failed_def)

lemma run_trace_finished [simp]: "run_trace (finished r) = ls_trace (snd r)"
  by (cases r) (auto simp add: finished_def split: option.splits)

lemma run_error_finished: "run_error (finished r) = map_option Failed (fst r)"
  by (cases r) (auto simp add: finished_def split: option.splits)

lemma run_rows_finished: "fst r \<noteq> None \<Longrightarrow> run_rows (finished r) = []"
  by (cases r) (auto simp add: finished_def split: option.splits)

text \<open>
  The counts of a command, from those of its loop: \<open>n\<close> bounds the refreshes of the loop
  beyond the first.
\<close>

lemma withTarget_bounds:
  assumes loop: "\<And>hs c a t.
      fallbacks (ls_trace (snd (loop hs c a t))) \<le> fallbacks t + 1 \<and>
      discoveryCalls (ls_trace (snd (loop hs c a t))) \<le> discoveryCalls t + 2 \<and>
      refreshes (ls_trace (snd (loop hs c a t))) \<le> refreshes t + n + 1"
    and T: "T = run_trace (withTarget E lower readFile urlParse itunes cflags aflags headerFlag
      countries tr0 loop)"
    and k: "k = (if resolveAdamIDFromFlags urlParse itunes aflags countries =
      Inl ErrAdamIDNotProvided then 1 else 0)"
  shows "fallbacks T \<le> fallbacks tr0 + 1 \<and>
         discoveryCalls T \<le> discoveryCalls tr0 + 2 + 2 * k \<and>
         refreshes T \<le> refreshes (snd (getCookieFlag E lower readFile tr0 cflags)) + n + 1 + k"
proof -
  obtain r1 t1 where g: "getCookieFlag E lower readFile tr0 cflags = (r1, t1)"
    by (cases "getCookieFlag E lower readFile tr0 cflags")
  note n1 = getCookieFlag_tally [OF g]
  show ?thesis
  proof (cases r1)
    case (Inl e)
    with g T n1 show ?thesis by (simp add: withTarget_def)
  next
    case (Inr cookie)
    note r1 = Inr
    show ?thesis
    proof (cases headerFlag)
      case (Inl e)
      with g r1 T n1 show ?thesis by (simp add: withTarget_def)
    next
      case (Inr hs)
      obtain r2 t2 where res: "resolveAdamIDForCMCommand E urlParse itunes aflags countries
          cookie hs (autoCookieFlag cflags) t1 = (r2, t2)"
        by (cases "resolveAdamIDForCMCommand E urlParse itunes aflags countries
          cookie hs (autoCookieFlag cflags) t1")
      note n2 = resolveAdamIDForCMCommand_tally [OF res]
      from n2 k have b2: "fallbacks t2 = fallbacks t1 \<and> discoveryCalls t2 \<le> discoveryCalls t1 + 2 * k \<and>
          refreshes t2 \<le> refreshes t1 + k"
        by (auto split: if_splits)
      show ?thesis
      proof (cases r2)
        case (Inl e)
        with g r1 Inr res T have "T = t2" by (simp add: withTarget_def)
        with b2 n1 g show ?thesis by simp
      next
        case (Inr found)
        obtain a c where found: "found = (a, c)" by (cases found)
        from g r1 \<open>headerFlag = Inr hs\<close> res Inr found T
        have "T = ls_trace (snd (loop hs c a t2))" by (simp add: withTarget_def)
        with loop [of hs c a t2] b2 n1 g show ?thesis by simp
      qed
    qed
  qed
qed

text \<open>A command that has its credential and finds its target in the flags is its loop.\<close>

lemma withTarget_reaches_loop:
  assumes "getCookieFlag E lower readFile tr0 cflags = (Inr cookie, t1)"
    and "headerFlag = Inr extraHeaders"
    and "resolveAdamIDFromFlags urlParse itunes aflags countries = Inr adamID"
  shows "withTarget E lower readFile urlParse itunes cflags aflags headerFlag countries tr0 loop =
           finished (loop extraHeaders cookie adamID t1)"
  using assms by (simp add: withTarget_def resolveAdamIDForCMCommand_flags)

text \<open>A command against a client of which every operation reports an expired credential.\<close>

lemma withTarget_alwaysExpired:
  assumes disc: "\<And>hs. discoveryAlwaysExpired E hs"
    and loop: "\<And>hs c a t.
      fst (loop hs c a t) \<noteq> None \<and>
      discoveryCalls (ls_trace (snd (loop hs c a t))) = discoveryCalls t \<and>
      fallbacks (ls_trace (snd (loop hs c a t))) = fallbacks t \<and>
      apiCalls (ls_trace (snd (loop hs c a t))) \<le> apiCalls t + 2 \<and>
      refreshes (ls_trace (snd (loop hs c a t))) \<le> refreshes t + 1"
    and R: "R = withTarget E lower readFile urlParse itunes cflags aflags headerFlag
      countries tr0 loop"
  shows "run_error R \<noteq> None \<and> run_rows R = [] \<and>
         apiCalls (run_trace R) + discoveryCalls (run_trace R) \<le>
           apiCalls tr0 + discoveryCalls tr0 + 2 \<and>
         refreshes (run_trace R) \<le>
           refreshes (snd (getCookieFlag E lower readFile tr0 cflags)) + 1 \<and>
         fallbacks (run_trace R) = fallbacks tr0"
proof -
  obtain r1 t1 where g: "getCookieFlag E lower readFile tr0 cflags = (r1, t1)"
    by (cases "getCookieFlag E lower readFile tr0 cflags")
  note n1 = getCookieFlag_tally [OF g]
  show ?thesis
  proof (cases r1)
    case (Inl e)
    with g R n1 show ?thesis by (simp add: withTarget_def)
  next
    case (Inr cookie)
    note r1 = Inr
    show ?thesis
    proof (cases headerFlag)
      case (Inl e)
      with g r1 R n1 show ?thesis by (simp add: withTarget_def)
    next
      case (Inr hs)
      note hf = Inr
      show ?thesis
      proof (cases "resolveAdamIDFromFlags urlParse itunes aflags countries")
        case (Inr a)
        from withTarget_reaches_loop [OF g [unfolded r1] hf Inr] R
        have R': "R = finished (loop hs cookie a t1)" by simp
        from loop [of hs cookie a t1] n1 g show ?thesis
          unfolding R' by (simp add: run_error_finished run_rows_finished)
      next
        case (Inl err)
        show ?thesis
        proof (cases "err = ErrAdamIDNotProvided")
          case False
          with g r1 hf Inl R n1 show ?thesis
            by (simp add: withTarget_def resolveAdamIDForCMCommand_def)
        next
          case True
          obtain rd td where d: "discoverOwnedAdamIDWithRefresh E t1 cookie hs
              (autoCookieFlag cflags) = (rd, td)"
            by (cases "discoverOwnedAdamIDWithRefresh E t1 cookie hs (autoCookieFlag cflags)")
          from discover_alwaysExpired [OF disc [of hs], of t1 cookie "autoCookieFlag cflags"] d
          obtain e where rd: "rd = Inl e" by auto
          from g r1 hf Inl True d rd R have "run_error R \<noteq> None \<and> run_rows R = [] \<and>
              run_trace R = td"
            by (simp add: withTarget_def resolveAdamIDForCMCommand_def)
          with discoverOwnedAdamIDWithRefresh_tally [OF d] n1 g show ?thesis by simp
        qed
      qed
    qed
  qed
qed

text \<open>The counts of the two loops and of the two commands, for any behaviour of the outside.\<close>

lemma popscoreLoop_bounds:
  "fallbacks (ls_trace (snd (popscoreLoop E autoCookie extraHeaders kws countries cookie adamID
      tr))) \<le> fallbacks tr + 1 \<and>
   discoveryCalls (ls_trace (snd (popscoreLoop E autoCookie extraHeaders kws countries cookie
      adamID tr))) \<le> discoveryCalls tr + 2 \<and>
   refreshes (ls_trace (snd (popscoreLoop E autoCookie extraHeaders kws countries cookie adamID
      tr))) \<le> refreshes tr + length countries + 1"
  unfolding popscoreLoop_def by (rule loop_bounds [OF postsOnce_callPopularities])

lemma recommendLoop_bounds:
  "fallbacks (ls_trace (snd (recommendLoop E srt autoCookie extraHeaders seed limit minPop
      countries cookie adamID tr))) \<le> fallbacks tr + 1 \<and>
   discoveryCalls (ls_trace (snd (recommendLoop E srt autoCookie extraHeaders seed limit minPop
      countries cookie adamID tr))) \<le> discoveryCalls tr + 2 \<and>
   refreshes (ls_trace (snd (recommendLoop E srt autoCookie extraHeaders seed limit minPop
      countries cookie adamID tr))) \<le> refreshes tr + length countries + 1"
  unfolding recommendLoop_def by (rule loop_bounds [OF postsOnce_callRecommendations])

lemma popscoreRunE_bounds:
  assumes T: "T = run_trace (popscoreRunE E lower readFile urlParse itunes cflags aflags
      headerFlag countries kws tr0)"
    and k: "k = (if resolveAdamIDFromFlags urlParse itunes aflags countries =
      Inl ErrAdamIDNotProvided then 1 else 0)"
  shows "fallbacks T \<le> fallbacks tr0 + 1 \<and>
         discoveryCalls T \<le> discoveryCalls tr0 + 2 + 2 * k \<and>
         refreshes T \<le>
           refreshes (snd (getCookieFlag E lower readFile tr0 cflags)) + length countries + 1 + k"
proof (cases "kws = []")
  case True
  obtain r1 t1 where g: "getCookieFlag E lower readFile tr0 cflags = (r1, t1)"
    by (cases "getCookieFlag E lower readFile tr0 cflags")
  from True T have "T = tr0" by (simp add: popscoreRunE_def)
  with getCookieFlag_tally [OF g] g show ?thesis by simp
next
  case False
  with T have T': "T = run_trace (withTarget E lower readFile urlParse itunes cflags aflags
      headerFlag countries tr0
      (\<lambda>extraHeaders cookie adamID t.
         popscoreLoop E (autoCookieFlag cflags) extraHeaders kws countries cookie adamID t))"
    by (simp add: popscoreRunE_def)
  show ?thesis
    by (rule withTarget_bounds [OF _ T' k]) (rule popscoreLoop_bounds)
qed

lemma recommendRunE_bounds:
  assumes T: "T = run_trace (recommendRunE E lower srt readFile urlParse itunes cflags aflags
      headerFlag countries textFlag limit minPop tr0)"
    and k: "k = (if resolveAdamIDFromFlags urlParse itunes aflags countries =
      Inl ErrAdamIDNotProvided then 1 else 0)"
  shows "fallbacks T \<le> fallbacks tr0 + 1 \<and>
         discoveryCalls T \<le> discoveryCalls tr0 + 2 + 2 * k \<and>
         refreshes T \<le>
           refreshes (snd (getCookieFlag E lower readFile tr0 cflags)) + length countries + 1 + k"
proof (cases "TrimSpace textFlag = []")
  case True
  obtain r1 t1 where g: "getCookieFlag E lower readFile tr0 cflags = (r1, t1)"
    by (cases "getCookieFlag E lower readFile tr0 cflags")
  from True T have "T = tr0" by (simp add: recommendRunE_def)
  with getCookieFlag_tally [OF g] g show ?thesis by simp
next
  case False
  with T have T': "T = run_trace (withTarget E lower readFile urlParse itunes cflags aflags
      headerFlag countries tr0
      (\<lambda>extraHeaders cookie adamID t.
         recommendLoop E srt (autoCookieFlag cflags) extraHeaders (TrimSpace textFlag) limit
           minPop countries cookie adamID t))"
    by (simp add: recommendRunE_def Let_def)
  show ?thesis
    by (rule withTarget_bounds [OF _ T' k]) (rule recommendLoop_bounds)
qed

lemma getCookieFlag_one_refresh:
  "refreshes (snd (getCookieFlag E lower readFile tr0 cflags)) \<le> refreshes tr0 + 1"
proof -
  obtain r1 t1 where g: "getCookieFlag E lower readFile tr0 cflags = (r1, t1)"
    by (cases "getCookieFlag E lower readFile tr0 cflags")
  from getCookieFlag_tally [OF g] g show ?thesis by simp
qed

text \<open>A command that has its credential and finds its target in the flags is its loop.\<close>

lemma popscoreRunE_reaches_loop:
  assumes "kws \<noteq> []"
    and "getCookieFlag E lower readFile tr0 cflags = (Inr cookie, t1)"
    and "headerFlag = Inr extraHeaders"
    and "resolveAdamIDFromFlags urlParse itunes aflags countries = Inr adamID"
  shows "popscoreRunE E lower readFile urlParse itunes cflags aflags headerFlag countries kws tr0 =
           finished (popscoreLoop E (autoCookieFlag cflags) extraHeaders kws countries cookie
             adamID t1)"
  using assms(1) withTarget_reaches_loop [OF assms(2-4)] by (simp add: popscoreRunE_def)

lemma recommendRunE_reaches_loop:
  assumes "TrimSpace textFlag \<noteq> []"
    and "getCookieFlag E lower readFile tr0 cflags = (Inr cookie, t1)"
    and "headerFlag = Inr extraHeaders"
    and "resolveAdamIDFromFlags urlParse itunes aflags countries = Inr adamID"
  shows "recommendRunE E lower srt readFile urlParse itunes cflags aflags headerFlag countries
           textFlag limit minPop tr0 =
           finished (recommendLoop E srt (autoCookieFlag cflags) extraHeaders (TrimSpace textFlag)
             limit minPop countries cookie adamID t1)"
  using assms(1) withTarget_reaches_loop [OF assms(2-4)] by (simp add: recommendRunE_def Let_def)

text \<open>The two commands against a client of which every operation reports an expired credential.\<close>

lemma popscoreRunE_alwaysExpired:
  assumes cl: "clientAlwaysExpired E" and ne: "countries \<noteq> []"
    and R: "R = popscoreRunE E lower readFile urlParse itunes cflags aflags headerFlag countries
      kws tr0"
  shows "run_error R \<noteq> None \<and> run_rows R = [] \<and>
         apiCalls (run_trace R) + discoveryCalls (run_trace R) \<le>
           apiCalls tr0 + discoveryCalls tr0 + 2 \<and>
         refreshes (run_trace R) \<le>
           refreshes (snd (getCookieFlag E lower readFile tr0 cflags)) + 1 \<and>
         fallbacks (run_trace R) = fallbacks tr0"
proof (cases "kws = []")
  case True
  obtain r1 t1 where g: "getCookieFlag E lower readFile tr0 cflags = (r1, t1)"
    by (cases "getCookieFlag E lower readFile tr0 cflags")
  from True R have "R = failed (Failed ''no keywords provided (use --keywords or --keywords-file)'')
      tr0"
    by (simp add: popscoreRunE_def)
  with getCookieFlag_tally [OF g] g show ?thesis by simp
next
  case False
  with R have R': "R = withTarget E lower readFile urlParse itunes cflags aflags
      headerFlag countries tr0
      (\<lambda>extraHeaders cookie adamID t.
         popscoreLoop E (autoCookieFlag cflags) extraHeaders kws countries cookie adamID t)"
    by (simp add: popscoreRunE_def)
  from cl have disc: "discoveryAlwaysExpired E hs" for hs
    unfolding clientAlwaysExpired_def by blast
  from cl have exp: "alwaysExpired (callPopularities E hs kws)" for hs
    unfolding clientAlwaysExpired_def by blast
  show ?thesis
  proof (rule withTarget_alwaysExpired [OF disc _ R'])
    fix hs c a t
    from expired_scenario [OF postsOnce_callPopularities exp [of hs] ne refl,
        where E = E and autoCookie = "autoCookieFlag cflags" and extraHeaders = hs
          and rows = "popscoreRows kws" and cookie = c and adamID = a and ?tr0.0 = t,
        folded popscoreLoop_def]
    show "fst (popscoreLoop E (autoCookieFlag cflags) hs kws countries c a t) \<noteq> None \<and>
      discoveryCalls (ls_trace (snd (popscoreLoop E (autoCookieFlag cflags) hs kws countries c a
        t))) = discoveryCalls t \<and>
      fallbacks (ls_trace (snd (popscoreLoop E (autoCookieFlag cflags) hs kws countries c a t))) =
        fallbacks t \<and>
      apiCalls (ls_trace (snd (popscoreLoop E (autoCookieFlag cflags) hs kws countries c a t))) \<le>
        apiCalls t + 2 \<and>
      refreshes (ls_trace (snd (popscoreLoop E (autoCookieFlag cflags) hs kws countries c a t))) \<le>
        refreshes t + 1"
      by blast
  qed
qed

lemma recommendRunE_alwaysExpired:
  assumes cl: "clientAlwaysExpired E" and ne: "countries \<noteq> []"
    and R: "R = recommendRunE E lower srt readFile urlParse itunes cflags aflags headerFlag
      countries textFlag limit minPop tr0"
  shows "run_error R \<noteq> None \<and> run_rows R = [] \<and>
         apiCalls (run_trace R) + discoveryCalls (run_trace R) \<le>
           apiCalls tr0 + discoveryCalls tr0 + 2 \<and>
         refreshes (run_trace R) \<le>
           refreshes (snd (getCookieFlag E lower readFile tr0 cflags)) + 1 \<and>
         fallbacks (run_trace R) = fallbacks tr0"
proof (cases "TrimSpace textFlag = []")
  case True
  obtain r1 t1 where g: "getCookieFlag E lower readFile tr0 cflags = (r1, t1)"
    by (cases "getCookieFlag E lower readFile tr0 cflags")
  from True R have "R = failed (Failed ''--text is required'') tr0"
    by (simp add: recommendRunE_def)
  with getCookieFlag_tally [OF g] g show ?thesis by simp
next
  case False
  with R have R': "R = withTarget E lower readFile urlParse itunes cflags aflags
      headerFlag countries tr0
      (\<lambda>extraHeaders cookie adamID t.
         recommendLoop E srt (autoCookieFlag cflags) extraHeaders (TrimSpace textFlag) limit
           minPop countries cookie adamID t)"
    by (simp add: recommendRunE_def Let_def)
  from cl have disc: "discoveryAlwaysExpired E hs" for hs
    unfolding clientAlwaysExpired_def by blast
  from cl have exp: "alwaysExpired (callRecommendations E hs (TrimSpace textFlag))" for hs
    unfolding clientAlwaysExpired_def by blast
  show ?thesis
  proof (rule withTarget_alwaysExpired [OF disc _ R'])
    fix hs c a t
    from expired_scenario [OF postsOnce_callRecommendations exp [of hs] ne refl,
        where E = E and autoCookie = "autoCookieFlag cflags" and extraHeaders = hs
          and rows = "recommendRows srt (TrimSpace textFlag) (effectiveLimit limit) minPop"
          and cookie = c and adamID = a and ?tr0.0 = t,
        folded recommendLoop_def]
    show "fst (recommendLoop E srt (autoCookieFlag cflags) hs (TrimSpace textFlag) limit minPop
        countries c a t) \<noteq> None \<and>
      discoveryCalls (ls_trace (snd (recommendLoop E srt (autoCookieFlag cflags) hs
        (TrimSpace textFlag) limit minPop countries c a t))) = discoveryCalls t \<and>
      fallbacks (ls_trace (snd (recommendLoop E srt (autoCookieFlag cflags) hs
        (TrimSpace textFlag) limit minPop countries c a t))) = fallbacks t \<and>
      apiCalls (ls_trace (snd (recommendLoop E srt (autoCookieFlag cflags) hs
        (TrimSpace textFlag) limit minPop countries c a t))) \<le> apiCalls t + 2 \<and>
      refreshes (ls_trace (snd (recommendLoop E srt (autoCookieFlag cflags) hs
        (TrimSpace textFlag) limit minPop countries c a t))) \<le> refreshes t + 1"
      by blast
  qed
qed

text \<open>
  C2, as stated, against \<open>expiringClient\<close>: one run of the popularity command over two
  countries refreshes the credential twice (once in each country) and succeeds.
\<close>

theorem C2_two_refreshes_in_one_run:
  "fst (popscoreLoop expiringClient True [] [''plant''] [''US'', ''GB''] ''old=1'' 999 []) = None \<and>
   refreshes (ls_trace (snd (popscoreLoop expiringClient True [] [''plant''] [''US'', ''GB'']
     ''old=1'' 999 []))) = 2"
  by code_simp

text \<open>
  C2, amended: a refresh for an expired credential is attempted at most once for each
  call site, not once for the command. The call sites are the discovery of an owned app
  that the command makes before its loop when the flags name no target, the call of the
  keyword API in each country, and the discovery of the fallback, which a command makes at
  most once. So an iteration refreshes at most twice, and only once when the fallback has
  been used before; a loop over \<open>n\<close> countries refreshes at most \<open>n + 1\<close> times; and a
  command over \<open>n\<close> countries refreshes at most \<open>n + 2\<close> times after it has loaded its
  credential, \<open>n + 1\<close> times when the flags name the target. Loading the credential
  refreshes at most once, for a missing credential.

  Against a keyword API that always reports an expired credential, the loop over at
  least one country makes no discovery and returns an error: with \<open>auto-cookie\<close> on and
  a refresh that succeeds after exactly two calls of the API (the first and one retry
  after the one refresh), with a refresh that fails after one call and that refresh,
  with \<open>auto-cookie\<close> off after one call and no refresh. Against a client of which every
  operation reports an expired credential, a command over at least one country fails
  after at most two requests and at most one refresh for an expired credential. A
  command that has its credential and finds its target in the flags is its loop.
\<close>

theorem C2_refresh_once_per_call:
  "refreshes (ls_trace (snd (iteration E autoCookie extraHeaders
      (callPopularities E extraHeaders kws) (popscoreRows kws) stp cc))) \<le>
     refreshes (ls_trace stp) + 1 + fallbackLeft stp \<and>
   refreshes (ls_trace (snd (iteration E autoCookie extraHeaders
      (callRecommendations E extraHeaders seed)
      (recommendRows srt seed (effectiveLimit limit) minPop) str cc))) \<le>
     refreshes (ls_trace str) + 1 + fallbackLeft str \<and>
   refreshes (ls_trace (snd (popscoreLoop E autoCookie extraHeaders kws countries cookie
      adamID tr))) \<le> refreshes tr + length countries + 1 \<and>
   refreshes (ls_trace (snd (recommendLoop E srt autoCookie extraHeaders seed limit minPop
      countries cookie adamID tr))) \<le> refreshes tr + length countries + 1 \<and>
   refreshes (run_trace (popscoreRunE E lower readFile urlParse itunes cflags aflags headerFlag
      countries kws tr0)) \<le>
     refreshes (snd (getCookieFlag E lower readFile tr0 cflags)) + length countries + 1 +
       (if resolveAdamIDFromFlags urlParse itunes aflags countries = Inl ErrAdamIDNotProvided
        then 1 else 0) \<and>
   refreshes (run_trace (recommendRunE E lower srt readFile urlParse itunes cflags aflags
      headerFlag countries textFlag limit minPop tr0)) \<le>
     refreshes (snd (getCookieFlag E lower readFile tr0 cflags)) + length countries + 1 +
       (if resolveAdamIDFromFlags urlParse itunes aflags countries = Inl ErrAdamIDNotProvided
        then 1 else 0) \<and>
   refreshes (snd (getCookieFlag E lower readFile tr0 cflags)) \<le> refreshes tr0 + 1 \<and>
   (alwaysExpired (callPopularities E extraHeaders kws) \<and> countries \<noteq> [] \<longrightarrow>
      (let R = popscoreLoop E autoCookie extraHeaders kws countries cookie adamID tr in
       fst R \<noteq> None \<and> ls_out (snd R) = [] \<and>
       discoveryCalls (ls_trace (snd R)) = discoveryCalls tr \<and>
       fallbacks (ls_trace (snd R)) = fallbacks tr \<and>
       apiCalls (ls_trace (snd R)) \<le> apiCalls tr + 2 \<and>
       refreshes (ls_trace (snd R)) \<le> refreshes tr + 1 \<and>
       (if autoCookie then
          (case refresh E (snd (callPopularities E extraHeaders kws tr cookie adamID
                  (hd countries))) of
             Inr c \<Rightarrow>
               apiCalls (ls_trace (snd R)) = apiCalls tr + 2 \<and>
               refreshes (ls_trace (snd R)) = refreshes tr + 1 \<and>
               (\<exists>e. fst R = Some e \<and> isCMRefreshError (Some e))
           | Inl re \<Rightarrow>
               apiCalls (ls_trace (snd R)) = apiCalls tr + 1 \<and>
               refreshes (ls_trace (snd R)) = refreshes tr + 1 \<and> fst R = Some re)
        else apiCalls (ls_trace (snd R)) = apiCalls tr + 1 \<and>
             refreshes (ls_trace (snd R)) = refreshes tr \<and>
             (\<exists>e. fst R = Some e \<and> isCMRefreshError (Some e))))) \<and>
   (alwaysExpired (callRecommendations E extraHeaders seed) \<and> countries \<noteq> [] \<longrightarrow>
      (let R = recommendLoop E srt autoCookie extraHeaders seed limit minPop countries cookie
                 adamID tr in
       fst R \<noteq> None \<and> ls_out (snd R) = [] \<and>
       discoveryCalls (ls_trace (snd R)) = discoveryCalls tr \<and>
       fallbacks (ls_trace (snd R)) = fallbacks tr \<and>
       apiCalls (ls_trace (snd R)) \<le> apiCalls tr + 2 \<and>
       refreshes (ls_trace (snd R)) \<le> refreshes tr + 1 \<and>
       (if autoCookie then
          (case refresh E (snd (callRecommendations E extraHeaders seed tr cookie adamID
                  (hd countries))) of
             Inr c \<Rightarrow>
               apiCalls (ls_trace (snd R)) = apiCalls tr + 2 \<and>
               refreshes (ls_trace (snd R)) = refreshes tr + 1 \<and>
               (\<exists>e. fst R = Some e \<and> isCMRefreshError (Some e))
           | Inl re \<Rightarrow>
               apiCalls (ls_trace (snd R)) = apiCalls tr + 1 \<and>
               refreshes (ls_trace (snd R)) = refreshes tr + 1 \<and> fst R = Some re)
        else apiCalls (ls_trace (snd R)) = apiCalls tr + 1 \<and>
             refreshes (ls_trace (snd R)) = refreshes tr \<and>
             (\<exists>e. fst R = Some e \<and> isCMRefreshError (Some e))))) \<and>
   (clientAlwaysExpired E \<and> countries \<noteq> [] \<longrightarrow>
      (let R = popscoreRunE E lower readFile urlParse itunes cflags aflags headerFlag countries
                 kws tr0 in
       run_error R \<noteq> None \<and> run_rows R = [] \<and>
       apiCalls (run_trace R) + discoveryCalls (run_trace R) \<le>
         apiCalls tr0 + discoveryCalls tr0 + 2 \<and>
       refreshes (run_trace R) \<le>
         refreshes (snd (getCookieFlag E lower readFile tr0 cflags)) + 1 \<and>
       fallbacks (run_trace R) = fallbacks tr0)) \<and>
   (clientAlwaysExpired E \<and> countries \<noteq> [] \<longrightarrow>
      (let R = recommendRunE E lower srt readFile urlParse itunes cflags aflags headerFlag
                 countries textFlag limit minPop tr0 in
       run_error R \<noteq> None \<and> run_rows R = [] \<and>
       apiCalls (run_trace R) + discoveryCalls (run_trace R) \<le>
         apiCalls tr0 + discoveryCalls tr0 + 2 \<and>
       refreshes (run_trace R) \<le>
         refreshes (snd (getCookieFlag E lower readFile tr0 cflags)) + 1 \<and>
       fallbacks (run_trace R) = fallbacks tr0)) \<and>
   (kws \<noteq> [] \<and> getCookieFlag E lower readFile tr0 cflags = (Inr cookie, tr) \<and>
    headerFlag = Inr extraHeaders \<and>
    resolveAdamIDFromFlags urlParse itunes aflags countries = Inr adamID \<longrightarrow>
      popscoreRunE E lower readFile urlParse itunes cflags aflags headerFlag countries kws tr0 =
        finished (popscoreLoop E (autoCookieFlag cflags) extraHeaders kws countries cookie
          adamID tr)) \<and>
   (TrimSpace textFlag \<noteq> [] \<and> getCookieFlag E lower readFile tr0 cflags = (Inr cookie, tr) \<and>
    headerFlag = Inr extraHeaders \<and>
    resolveAdamIDFromFlags urlParse itunes aflags countries = Inr adamID \<longrightarrow>
      recommendRunE E lower srt readFile urlParse itunes cflags aflags headerFlag countries
        textFlag limit minPop tr0 =
        finished (recommendLoop E srt (autoCookieFlag cflags) extraHeaders (TrimSpace textFlag)
          limit minPop countries cookie adamID tr))"
proof (intro conjI impI)
  show "refreshes (ls_trace (snd (iteration E autoCookie extraHeaders
      (callPopularities E extraHeaders kws) (popscoreRows kws) stp cc))) \<le>
     refreshes (ls_trace stp) + 1 + fallbackLeft stp"
  proof -
    obtain e1 s1 where it: "iteration E autoCookie extraHeaders
        (callPopularities E extraHeaders kws) (popscoreRows kws) stp cc = (e1, s1)"
      by (cases "iteration E autoCookie extraHeaders (callPopularities E extraHeaders kws)
        (popscoreRows kws) stp cc")
    from iteration_tally [OF postsOnce_callPopularities it] show ?thesis
      unfolding it by simp
  qed
  show "refreshes (ls_trace (snd (iteration E autoCookie extraHeaders
      (callRecommendations E extraHeaders seed)
      (recommendRows srt seed (effectiveLimit limit) minPop) str cc))) \<le>
     refreshes (ls_trace str) + 1 + fallbackLeft str"
  proof -
    obtain e1 s1 where it: "iteration E autoCookie extraHeaders
        (callRecommendations E extraHeaders seed)
        (recommendRows srt seed (effectiveLimit limit) minPop) str cc = (e1, s1)"
      by (cases "iteration E autoCookie extraHeaders (callRecommendations E extraHeaders seed)
        (recommendRows srt seed (effectiveLimit limit) minPop) str cc")
    from iteration_tally [OF postsOnce_callRecommendations it] show ?thesis
      unfolding it by simp
  qed
  show "refreshes (ls_trace (snd (popscoreLoop E autoCookie extraHeaders kws countries cookie
      adamID tr))) \<le> refreshes tr + length countries + 1"
    using popscoreLoop_bounds by blast
  show "refreshes (ls_trace (snd (recommendLoop E srt autoCookie extraHeaders seed limit minPop
      countries cookie adamID tr))) \<le> refreshes tr + length countries + 1"
    using recommendLoop_bounds by blast
  show "refreshes (run_trace (popscoreRunE E lower readFile urlParse itunes cflags aflags headerFlag
      countries kws tr0)) \<le>
     refreshes (snd (getCookieFlag E lower readFile tr0 cflags)) + length countries + 1 +
       (if resolveAdamIDFromFlags urlParse itunes aflags countries = Inl ErrAdamIDNotProvided
        then 1 else 0)"
    using popscoreRunE_bounds [OF refl refl] by blast
  show "refreshes (run_trace (recommendRunE E lower srt readFile urlParse itunes cflags aflags
      headerFlag countries textFlag limit minPop tr0)) \<le>
     refreshes (snd (getCookieFlag E lower readFile tr0 cflags)) + length countries + 1 +
       (if resolveAdamIDFromFlags urlParse itunes aflags countries = Inl ErrAdamIDNotProvided
        then 1 else 0)"
    using recommendRunE_bounds [OF refl refl] by blast
  show "refreshes (snd (getCookieFlag E lower readFile tr0 cflags)) \<le> refreshes tr0 + 1"
    by (rule getCookieFlag_one_refresh)
next
  assume a: "alwaysExpired (callPopularities E extraHeaders kws) \<and> countries \<noteq> []"
  show "let R = popscoreLoop E autoCookie extraHeaders kws countries cookie adamID tr in
       fst R \<noteq> None \<and> ls_out (snd R) = [] \<and>
       discoveryCalls (ls_trace (snd R)) = discoveryCalls tr \<and>
       fallbacks (ls_trace (snd R)) = fallbacks tr \<and>
       apiCalls (ls_trace (snd R)) \<le> apiCalls tr + 2 \<and>
       refreshes (ls_trace (snd R)) \<le> refreshes tr + 1 \<and>
       (if autoCookie then
          (case refresh E (snd (callPopularities E extraHeaders kws tr cookie adamID
                  (hd countries))) of
             Inr c \<Rightarrow>
               apiCalls (ls_trace (snd R)) = apiCalls tr + 2 \<and>
               refreshes (ls_trace (snd R)) = refreshes tr + 1 \<and>
               (\<exists>e. fst R = Some e \<and> isCMRefreshError (Some e))
           | Inl re \<Rightarrow>
               apiCalls (ls_trace (snd R)) = apiCalls tr + 1 \<and>
               refreshes (ls_trace (snd R)) = refreshes tr + 1 \<and> fst R = Some re)
        else apiCalls (ls_trace (snd R)) = apiCalls tr + 1 \<and>
             refreshes (ls_trace (snd R)) = refreshes tr \<and>
             (\<exists>e. fst R = Some e \<and> isCMRefreshError (Some e)))"
    unfolding Let_def popscoreLoop_def
    by (rule expired_scenario [OF postsOnce_callPopularities conjunct1 [OF a] conjunct2 [OF a]
          refl])
next
  assume a: "alwaysExpired (callRecommendations E extraHeaders seed) \<and> countries \<noteq> []"
  show "let R = recommendLoop E srt autoCookie extraHeaders seed limit minPop countries cookie
                 adamID tr in
       fst R \<noteq> None \<and> ls_out (snd R) = [] \<and>
       discoveryCalls (ls_trace (snd R)) = discoveryCalls tr \<and>
       fallbacks (ls_trace (snd R)) = fallbacks tr \<and>
       apiCalls (ls_trace (snd R)) \<le> apiCalls tr + 2 \<and>
       refreshes (ls_trace (snd R)) \<le> refreshes tr + 1 \<and>
       (if autoCookie then
          (case refresh E (snd (callRecommendations E extraHeaders seed tr cookie adamID
                  (hd countries))) of
             Inr c \<Rightarrow>
               apiCalls (ls_trace (snd R)) = apiCalls tr + 2 \<and>
               refreshes (ls_trace (snd R)) = refreshes tr + 1 \<and>
               (\<exists>e. fst R = Some e \<and> isCMRefreshError (Some e))
           | Inl re \<Rightarrow>
               apiCalls (ls_trace (snd R)) = apiCalls tr + 1 \<and>
               refreshes (ls_trace (snd R)) = refreshes tr + 1 \<and> fst R = Some re)
        else apiCalls (ls_trace (snd R)) = apiCalls tr + 1 \<and>
             refreshes (ls_trace (snd R)) = refreshes tr \<and>
             (\<exists>e. fst R = Some e \<and> isCMRefreshError (Some e)))"
    unfolding Let_def recommendLoop_def
    by (rule expired_scenario [OF postsOnce_callRecommendations conjunct1 [OF a]
          conjunct2 [OF a] refl])
next
  assume a: "clientAlwaysExpired E \<and> countries \<noteq> []"
  show "let R = popscoreRunE E lower readFile urlParse itunes cflags aflags headerFlag countries
                 kws tr0 in
       run_error R \<noteq> None \<and> run_rows R = [] \<and>
       apiCalls (run_trace R) + discoveryCalls (run_trace R) \<le>
         apiCalls tr0 + discoveryCalls tr0 + 2 \<and>
       refreshes (run_trace R) \<le>
         refreshes (snd (getCookieFlag E lower readFile tr0 cflags)) + 1 \<and>
       fallbacks (run_trace R) = fallbacks tr0"
    unfolding Let_def
    by (rule popscoreRunE_alwaysExpired [OF conjunct1 [OF a] conjunct2 [OF a] refl])
next
  assume a: "clientAlwaysExpired E \<and> countries \<noteq> []"
  show "let R = recommendRunE E lower srt readFile urlParse itunes cflags aflags headerFlag
                 countries textFlag limit minPop tr0 in
       run_error R \<noteq> None \<and> run_rows R = [] \<and>
       apiCalls (run_trace R) + discoveryCalls (run_trace R) \<le>
         apiCalls tr0 + discoveryCalls tr0 + 2 \<and>
       refreshes (run_trace R) \<le>
         refreshes (snd (getCookieFlag E lower readFile tr0 cflags)) + 1 \<and>
       fallbacks (run_trace R) = fallbacks tr0"
    unfolding Let_def
    by (rule recommendRunE_alwaysExpired [OF conjunct1 [OF a] conjunct2 [OF a] refl])
next
  assume "kws \<noteq> [] \<and> getCookieFlag E lower readFile tr0 cflags = (Inr cookie, tr) \<and>
    headerFlag = Inr extraHeaders \<and>
    resolveAdamIDFromFlags urlParse itunes aflags countries = Inr adamID"
  then show "popscoreRunE E lower readFile urlParse itunes cflags aflags headerFlag countries kws
      tr0 =
    finished (popscoreLoop E (autoCookieFlag cflags) extraHeaders kws countries cookie adamID tr)"
    using popscoreRunE_reaches_loop by blast
next
  assume "TrimSpace textFlag \<noteq> [] \<and> getCookieFlag E lower readFile tr0 cflags = (Inr cookie, tr) \<and>
    headerFlag = Inr extraHeaders \<and>
    resolveAdamIDFromFlags urlParse itunes aflags countries = Inr adamID"
  then show "recommendRunE E lower srt readFile urlParse itunes cflags aflags headerFlag countries
      textFlag limit minPop tr0 =
    finished (recommendLoop E srt (autoCookieFlag cflags) extraHeaders (TrimSpace textFlag)
      limit minPop countries cookie adamID tr)"
    using recommendRunE_reaches_loop by blast
qed

lemma itoa_403: "itoa 403 = ''403''"
  by code_simp

lemma itoa_400: "itoa 400 = ''400''"
  by code_simp

lemma alwaysExpired_expiredClient:
  "alwaysExpired (callPopularities expiredClient extraHeaders kws)"
proof -
  have e: "isCMRefreshError (Some ''cm endpoint HTTP 403: Forbidden'')"
    by code_simp
  have t: "TrimSpace ''Forbidden'' = ''Forbidden''"
    by code_simp
  have "fst (callPopularities expiredClient extraHeaders kws tr cookie adamID cc) =
      Inl ''cm endpoint HTTP 403: Forbidden''" for tr cookie adamID cc
    by (simp add: callPopularities_def cmKeywordPopularities_def cmPostJSON_def checkStatus_def
        expiredClient_def Let_def itoa_403 t)
  with e show ?thesis
    unfolding alwaysExpired_def by simp
qed

lemma sample_flags:
  "getCookieFlag E ToLower readFile [] (cookieOnly ''old=1'' auto) = (Inr ''old=1'', [])"
  "resolveAdamIDFromFlags urlParse itunes (adamIDFlag 999) countries = Inr 999"
  "autoCookieFlag (cookieOnly c auto) = auto"
proof -
  have t: "TrimSpace ''old=1'' = ''old=1''" by code_simp
  have s: "stripCookiePrefix ToLower ''old=1'' = ''old=1''" by code_simp
  show "getCookieFlag E ToLower readFile [] (cookieOnly ''old=1'' auto) = (Inr ''old=1'', [])"
    by (simp add: getCookieFlag_def cookieOnly_def Let_def t s)
  show "resolveAdamIDFromFlags urlParse itunes (adamIDFlag 999) countries = Inr 999"
    by (simp add: resolveAdamIDFromFlags_def adamIDFlag_def)
  show "autoCookieFlag (cookieOnly c auto) = auto"
    by (simp add: cookieOnly_def)
qed

theorem C2_refresh_once_per_call_witness:
  "run_error (popscoreRunE expiredClient ToLower (\<lambda>path. ReadNotExist) (\<lambda>s. None)
     (\<lambda>u q. Inl []) (cookieOnly ''old=1'' True) (adamIDFlag 999) (Inr []) [''US'', ''GB'']
     [''plant''] []) \<noteq> None \<and>
   apiCalls (run_trace (popscoreRunE expiredClient ToLower (\<lambda>path. ReadNotExist) (\<lambda>s. None)
     (\<lambda>u q. Inl []) (cookieOnly ''old=1'' True) (adamIDFlag 999) (Inr []) [''US'', ''GB'']
     [''plant''] [])) = 2 \<and>
   refreshes (run_trace (popscoreRunE expiredClient ToLower (\<lambda>path. ReadNotExist) (\<lambda>s. None)
     (\<lambda>u q. Inl []) (cookieOnly ''old=1'' True) (adamIDFlag 999) (Inr []) [''US'', ''GB'']
     [''plant''] [])) = 1 \<and>
   discoveryCalls (run_trace (popscoreRunE expiredClient ToLower (\<lambda>path. ReadNotExist)
     (\<lambda>s. None) (\<lambda>u q. Inl []) (cookieOnly ''old=1'' True) (adamIDFlag 999) (Inr [])
     [''US'', ''GB''] [''plant''] [])) = 0"
proof -
  let ?R = "popscoreRunE expiredClient ToLower (\<lambda>path. ReadNotExist) (\<lambda>s. None)
     (\<lambda>u q. Inl []) (cookieOnly ''old=1'' True) (adamIDFlag 999) (Inr []) [''US'', ''GB'']
     [''plant''] []"
  let ?L = "popscoreLoop expiredClient True [] [''plant''] [''US'', ''GB''] ''old=1'' 999 []"
  note T = C2_refresh_once_per_call [where E = expiredClient and lower = ToLower
      and readFile = "\<lambda>path. ReadNotExist" and urlParse = "\<lambda>s. None"
      and itunes = "\<lambda>u q. Inl []" and cflags = "cookieOnly ''old=1'' True"
      and aflags = "adamIDFlag 999" and headerFlag = "Inr []" and countries = "[''US'', ''GB'']"
      and kws = "[''plant'']" and ?tr0.0 = "[]" and tr = "[]" and cookie = "''old=1''"
      and adamID = 999 and extraHeaders = "[]" and autoCookie = True]
  have r: "refresh expiredClient t = Inr ''fresh=1''" for t
    by (simp add: expiredClient_def)
  have z: "apiCalls [] = 0" "refreshes [] = 0" "discoveryCalls [] = 0"
    by (simp_all add: apiCalls_def refreshes_def discoveryCalls_def)
  from T have link: "?R = finished ?L"
    by (simp add: sample_flags)
  from T alwaysExpired_expiredClient [of "[]" "[''plant'']"]
  have loop: "fst ?L \<noteq> None \<and> apiCalls (ls_trace (snd ?L)) = 2 \<and>
      refreshes (ls_trace (snd ?L)) = 1 \<and> discoveryCalls (ls_trace (snd ?L)) = 0"
    by (simp add: Let_def r z)
  then show ?thesis
    unfolding link by (simp add: run_error_finished)
qed

text \<open>
  C5, as stated, against \<open>refusingClient\<close>, which answers every request with the
  not-owned sentinel: the popularity command with \<open>--adam-id 999\<close> over two countries
  makes one call of the API and one request for the campaign list, which is refused like
  the call; there is no second call of the API, and the command returns the error of
  the discovery.
\<close>

theorem C5_no_recall_when_discovery_fails:
  "run_error (popscoreRunE refusingClient ToLower (\<lambda>path. ReadNotExist) (\<lambda>s. None)
     (\<lambda>u q. Inl []) (cookieOnly ''c=1'' True) (adamIDFlag 999) (Inr []) [''US'', ''GB'']
     [''plant''] []) =
     Some (Failed (''adam-id 999 is not accessible for this Apple Ads account, '' @
       ''and auto-discovery failed: cm endpoint HTTP 400: NO_USER_OWNED_APPS_FOUND_CODE'')) \<and>
   apiCalls (run_trace (popscoreRunE refusingClient ToLower (\<lambda>path. ReadNotExist) (\<lambda>s. None)
     (\<lambda>u q. Inl []) (cookieOnly ''c=1'' True) (adamIDFlag 999) (Inr []) [''US'', ''GB'']
     [''plant''] [])) = 1 \<and>
   discoveryCalls (run_trace (popscoreRunE refusingClient ToLower (\<lambda>path. ReadNotExist)
     (\<lambda>s. None) (\<lambda>u q. Inl []) (cookieOnly ''c=1'' True) (adamIDFlag 999) (Inr [])
     [''US'', ''GB''] [''plant''] [])) = 1 \<and>
   fallbacks (run_trace (popscoreRunE refusingClient ToLower (\<lambda>path. ReadNotExist)
     (\<lambda>s. None) (\<lambda>u q. Inl []) (cookieOnly ''c=1'' True) (adamIDFlag 999) (Inr [])
     [''US'', ''GB''] [''plant''] [])) = 1"
  by code_simp

text \<open>
  C5, amended: the fallback to an owned app is attempted at most once in a run of either
  command, whatever the outside does and however many countries are given: the trace of
  the loop holds at most one assignment of the flag and at most two requests for the
  campaign list (the discovery and its one retry after a refresh), and the trace of the
  command at most two more when the flags name no target, for the discovery that it then
  makes before its loop. Against a keyword API that always reports the app as not owned,
  the loop over at least one country attempts exactly one fallback, in its first
  country, with one or two requests for the campaign list and at most one refresh, and
  returns an error. When the discovery fails, that is the error of the discovery, after
  one call of the API; when it yields an app, it is the error of the second call of the
  API, the one after the discovery. With a discovery that succeeds at its first request
  there are exactly one discovery request, two calls of the API and no refresh. A
  command that has its credential and finds its target in the flags is its loop.
\<close>

theorem C5_fallback_once_per_run:
  "fallbacks (ls_trace (snd (popscoreLoop E autoCookie extraHeaders kws countries cookie
      adamID tr))) \<le> fallbacks tr + 1 \<and>
   discoveryCalls (ls_trace (snd (popscoreLoop E autoCookie extraHeaders kws countries cookie
      adamID tr))) \<le> discoveryCalls tr + 2 \<and>
   fallbacks (ls_trace (snd (recommendLoop E srt autoCookie extraHeaders seed limit minPop
      countries cookie adamID tr))) \<le> fallbacks tr + 1 \<and>
   discoveryCalls (ls_trace (snd (recommendLoop E srt autoCookie extraHeaders seed limit minPop
      countries cookie adamID tr))) \<le> discoveryCalls tr + 2 \<and>
   fallbacks (run_trace (popscoreRunE E lower readFile urlParse itunes cflags aflags headerFlag
      countries kws tr0)) \<le> fallbacks tr0 + 1 \<and>
   discoveryCalls (run_trace (popscoreRunE E lower readFile urlParse itunes cflags aflags
      headerFlag countries kws tr0)) \<le>
     discoveryCalls tr0 + 2 +
       2 * (if resolveAdamIDFromFlags urlParse itunes aflags countries = Inl ErrAdamIDNotProvided
            then 1 else 0) \<and>
   fallbacks (run_trace (recommendRunE E lower srt readFile urlParse itunes cflags aflags
      headerFlag countries textFlag limit minPop tr0)) \<le> fallbacks tr0 + 1 \<and>
   discoveryCalls (run_trace (recommendRunE E lower srt readFile urlParse itunes cflags aflags
      headerFlag countries textFlag limit minPop tr0)) \<le>
     discoveryCalls tr0 + 2 +
       2 * (if resolveAdamIDFromFlags urlParse itunes aflags countries = Inl ErrAdamIDNotProvided
            then 1 else 0) \<and>
   (alwaysNotOwned (callPopularities E extraHeaders kws) \<and> countries \<noteq> [] \<longrightarrow>
      (let R = popscoreLoop E autoCookie extraHeaders kws countries cookie adamID tr;
           D = discoverOwnedAdamIDWithRefresh E
                 (snd (callPopularities E extraHeaders kws tr cookie adamID (hd countries)) @
                  [EvFallback])
                 cookie extraHeaders autoCookie
       in ls_out (snd R) = [] \<and>
          fallbacks (ls_trace (snd R)) = fallbacks tr + 1 \<and>
          discoveryCalls tr + 1 \<le> discoveryCalls (ls_trace (snd R)) \<and>
          discoveryCalls (ls_trace (snd R)) \<le> discoveryCalls tr + 2 \<and>
          refreshes (ls_trace (snd R)) \<le> refreshes tr + 1 \<and>
          (case fst D of
             Inl discoverErr \<Rightarrow>
               fst R = Some (''adam-id '' @ itoa adamID @
                 '' is not accessible for this Apple Ads account, and auto-discovery failed: '' @
                 discoverErr) \<and>
               apiCalls (ls_trace (snd R)) = apiCalls tr + 1
           | Inr found \<Rightarrow>
               (\<exists>e. fst R = Some e \<and> isCMNoUserOwnedAppsError (Some e)) \<and>
               apiCalls (ls_trace (snd R)) = apiCalls tr + 2) \<and>
          (discoverySucceeds E extraHeaders \<longrightarrow>
             (\<exists>e. fst R = Some e \<and> isCMNoUserOwnedAppsError (Some e)) \<and>
             apiCalls (ls_trace (snd R)) = apiCalls tr + 2 \<and>
             discoveryCalls (ls_trace (snd R)) = discoveryCalls tr + 1 \<and>
             refreshes (ls_trace (snd R)) = refreshes tr))) \<and>
   (alwaysNotOwned (callRecommendations E extraHeaders seed) \<and> countries \<noteq> [] \<longrightarrow>
      (let R = recommendLoop E srt autoCookie extraHeaders seed limit minPop countries cookie
                 adamID tr;
           D = discoverOwnedAdamIDWithRefresh E
                 (snd (callRecommendations E extraHeaders seed tr cookie adamID (hd countries)) @
                  [EvFallback])
                 cookie extraHeaders autoCookie
       in ls_out (snd R) = [] \<and>
          fallbacks (ls_trace (snd R)) = fallbacks tr + 1 \<and>
          discoveryCalls tr + 1 \<le> discoveryCalls (ls_trace (snd R)) \<and>
          discoveryCalls (ls_trace (snd R)) \<le> discoveryCalls tr + 2 \<and>
          refreshes (ls_trace (snd R)) \<le> refreshes tr + 1 \<and>
          (case fst D of
             Inl discoverErr \<Rightarrow>
               fst R = Some (''adam-id '' @ itoa adamID @
                 '' is not accessible for this Apple Ads account, and auto-discovery failed: '' @
                 discoverErr) \<and>
               apiCalls (ls_trace (snd R)) = apiCalls tr + 1
           | Inr found \<Rightarrow>
               (\<exists>e. fst R = Some e \<and> isCMNoUserOwnedAppsError (Some e)) \<and>
               apiCalls (ls_trace (snd R)) = apiCalls tr + 2) \<and>
          (discoverySucceeds E extraHeaders \<longrightarrow>
             (\<exists>e. fst R = Some e \<and> isCMNoUserOwnedAppsError (Some e)) \<and>
             apiCalls (ls_trace (snd R)) = apiCalls tr + 2 \<and>
             discoveryCalls (ls_trace (snd R)) = discoveryCalls tr + 1 \<and>
             refreshes (ls_trace (snd R)) = refreshes tr))) \<and>
   (kws \<noteq> [] \<and> getCookieFlag E lower readFile tr0 cflags = (Inr cookie, tr) \<and>
    headerFlag = Inr extraHeaders \<and>
    resolveAdamIDFromFlags urlParse itunes aflags countries = Inr adamID \<longrightarrow>
      popscoreRunE E lower readFile urlParse itunes cflags aflags headerFlag countries kws tr0 =
        finished (popscoreLoop E (autoCookieFlag cflags) extraHeaders kws countries cookie
          adamID tr)) \<and>
   (TrimSpace textFlag \<noteq> [] \<and> getCookieFlag E lower readFile tr0 cflags = (Inr cookie, tr) \<and>
    headerFlag = Inr extraHeaders \<and>
    resolveAdamIDFromFlags urlParse itunes aflags countries = Inr adamID \<longrightarrow>
      recommendRunE E lower srt readFile urlParse itunes cflags aflags headerFlag countries
        textFlag limit minPop tr0 =
        finished (recommendLoop E srt (autoCookieFlag cflags) extraHeaders (TrimSpace textFlag)
          limit minPop countries cookie adamID tr))"
proof (intro conjI impI)
  show "fallbacks (ls_trace (snd (popscoreLoop E autoCookie extraHeaders kws countries cookie
      adamID tr))) \<le> fallbacks tr + 1"
    using popscoreLoop_bounds by blast
  show "discoveryCalls (ls_trace (snd (popscoreLoop E autoCookie extraHeaders kws countries cookie
      adamID tr))) \<le> discoveryCalls tr + 2"
    using popscoreLoop_bounds by blast
  show "fallbacks (ls_trace (snd (recommendLoop E srt autoCookie extraHeaders seed limit minPop
      countries cookie adamID tr))) \<le> fallbacks tr + 1"
    using recommendLoop_bounds by blast
  show "discoveryCalls (ls_trace (snd (recommendLoop E srt autoCookie extraHeaders seed limit
      minPop countries cookie adamID tr))) \<le> discoveryCalls tr + 2"
    using recommendLoop_bounds by blast
  show "fallbacks (run_trace (popscoreRunE E lower readFile urlParse itunes cflags aflags headerFlag
      countries kws tr0)) \<le> fallbacks tr0 + 1"
    using popscoreRunE_bounds [OF refl refl] by blast
  show "discoveryCalls (run_trace (popscoreRunE E lower readFile urlParse itunes cflags aflags
      headerFlag countries kws tr0)) \<le>
     discoveryCalls tr0 + 2 +
       2 * (if resolveAdamIDFromFlags urlParse itunes aflags countries = Inl ErrAdamIDNotProvided
            then 1 else 0)"
    using popscoreRunE_bounds [OF refl refl] by blast
  show "fallbacks (run_trace (recommendRunE E lower srt readFile urlParse itunes cflags aflags
      headerFlag countries textFlag limit minPop tr0)) \<le> fallbacks tr0 + 1"
    using recommendRunE_bounds [OF refl refl] by blast
  show "discoveryCalls (run_trace (recommendRunE E lower srt readFile urlParse itunes cflags aflags
      headerFlag countries textFlag limit minPop tr0)) \<le>
     discoveryCalls tr0 + 2 +
       2 * (if resolveAdamIDFromFlags urlParse itunes aflags countries = Inl ErrAdamIDNotProvided
            then 1 else 0)"
    using recommendRunE_bounds [OF refl refl] by blast
next
  assume a: "alwaysNotOwned (callPopularities E extraHeaders kws) \<and> countries \<noteq> []"
  show "let R = popscoreLoop E autoCookie extraHeaders kws countries cookie adamID tr;
           D = discoverOwnedAdamIDWithRefresh E
                 (snd (callPopularities E extraHeaders kws tr cookie adamID (hd countries)) @
                  [EvFallback])
                 cookie extraHeaders autoCookie
       in ls_out (snd R) = [] \<and>
          fallbacks (ls_trace (snd R)) = fallbacks tr + 1 \<and>
          discoveryCalls tr + 1 \<le> discoveryCalls (ls_trace (snd R)) \<and>
          discoveryCalls (ls_trace (snd R)) \<le> discoveryCalls tr + 2 \<and>
          refreshes (ls_trace (snd R)) \<le> refreshes tr + 1 \<and>
          (case fst D of
             Inl discoverErr \<Rightarrow>
               fst R = Some (''adam-id '' @ itoa adamID @
                 '' is not accessible for this Apple Ads account, and auto-discovery failed: '' @
                 discoverErr) \<and>
               apiCalls (ls_trace (snd R)) = apiCalls tr + 1
           | Inr found \<Rightarrow>
               (\<exists>e. fst R = Some e \<and> isCMNoUserOwnedAppsError (Some e)) \<and>
               apiCalls (ls_trace (snd R)) = apiCalls tr + 2) \<and>
          (discoverySucceeds E extraHeaders \<longrightarrow>
             (\<exists>e. fst R = Some e \<and> isCMNoUserOwnedAppsError (Some e)) \<and>
             apiCalls (ls_trace (snd R)) = apiCalls tr + 2 \<and>
             discoveryCalls (ls_trace (snd R)) = discoveryCalls tr + 1 \<and>
             refreshes (ls_trace (snd R)) = refreshes tr)"
    unfolding Let_def popscoreLoop_def
    by (rule notOwned_scenario [OF postsOnce_callPopularities conjunct1 [OF a] conjunct2 [OF a]
          refl refl])
next
  assume a: "alwaysNotOwned (callRecommendations E extraHeaders seed) \<and> countries \<noteq> []"
  show "let R = recommendLoop E srt autoCookie extraHeaders seed limit minPop countries cookie
                 adamID tr;
           D = discoverOwnedAdamIDWithRefresh E
                 (snd (callRecommendations E extraHeaders seed tr cookie adamID (hd countries)) @
                  [EvFallback])
                 cookie extraHeaders autoCookie
       in ls_out (snd R) = [] \<and>
          fallbacks (ls_trace (snd R)) = fallbacks tr + 1 \<and>
          discoveryCalls tr + 1 \<le> discoveryCalls (ls_trace (snd R)) \<and>
          discoveryCalls (ls_trace (snd R)) \<le> discoveryCalls tr + 2 \<and>
          refreshes (ls_trace (snd R)) \<le> refreshes tr + 1 \<and>
          (case fst D of
             Inl discoverErr \<Rightarrow>
               fst R = Some (''adam-id '' @ itoa adamID @
                 '' is not accessible for this Apple Ads account, and auto-discovery failed: '' @
                 discoverErr) \<and>
               apiCalls (ls_trace (snd R)) = apiCalls tr + 1
           | Inr found \<Rightarrow>
               (\<exists>e. fst R = Some e \<and> isCMNoUserOwnedAppsError (Some e)) \<and>
               apiCalls (ls_trace (snd R)) = apiCalls tr + 2) \<and>
          (discoverySucceeds E extraHeaders \<longrightarrow>
             (\<exists>e. fst R = Some e \<and> isCMNoUserOwnedAppsError (Some e)) \<and>
             apiCalls (ls_trace (snd R)) = apiCalls tr + 2 \<and>
             discoveryCalls (ls_trace (snd R)) = discoveryCalls tr + 1 \<and>
             refreshes (ls_trace (snd R)) = refreshes tr)"
    unfolding Let_def recommendLoop_def
    by (rule notOwned_scenario [OF postsOnce_callRecommendations conjunct1 [OF a]
          conjunct2 [OF a] refl refl])
next
  assume "kws \<noteq> [] \<and> getCookieFlag E lower readFile tr0 cflags = (Inr cookie, tr) \<and>
    headerFlag = Inr extraHeaders \<and>
    resolveAdamIDFromFlags urlParse itunes aflags countries = Inr adamID"
  then show "popscoreRunE E lower readFile urlParse itunes cflags aflags headerFlag countries kws
      tr0 =
    finished (popscoreLoop E (autoCookieFlag cflags) extraHeaders kws countries cookie adamID tr)"
    using popscoreRunE_reaches_loop by blast
next
  assume "TrimSpace textFlag \<noteq> [] \<and> getCookieFlag E lower readFile tr0 cflags = (Inr cookie, tr) \<and>
    headerFlag = Inr extraHeaders \<and>
    resolveAdamIDFromFlags urlParse itunes aflags countries = Inr adamID"
  then show "recommendRunE E lower srt readFile urlParse itunes cflags aflags headerFlag countries
      textFlag limit minPop tr0 =
    finished (recommendLoop E srt (autoCookieFlag cflags) extraHeaders (TrimSpace textFlag)
      limit minPop countries cookie adamID tr)"
    using recommendRunE_reaches_loop by blast
qed

lemma alwaysNotOwned_notOwnedClient:
  "alwaysNotOwned (callRecommendations notOwnedClient extraHeaders seed)"
proof -
  have e: "isCMNoUserOwnedAppsError (Some ''cm endpoint HTTP 400: NO_USER_OWNED_APPS_FOUND_CODE'')"
    by code_simp
  have t: "TrimSpace ''NO_USER_OWNED_APPS_FOUND_CODE'' = ''NO_USER_OWNED_APPS_FOUND_CODE''"
    by code_simp
  have "fst (callRecommendations notOwnedClient extraHeaders seed tr cookie adamID cc) =
      Inl ''cm endpoint HTTP 400: NO_USER_OWNED_APPS_FOUND_CODE''" for tr cookie adamID cc
    by (simp add: callRecommendations_def cmKeywordRecommendation_def cmPostJSON_def
        checkStatus_def notOwnedClient_def Let_def itoa_400 t)
  with e show ?thesis
    unfolding alwaysNotOwned_def by simp
qed

lemma discoverySucceeds_notOwnedClient: "discoverySucceeds notOwnedClient extraHeaders"
proof -
  have p: "parseCMCampaignData ''campaigns/find''
      \<lparr>raw = ''{\"data\":[{\"id\":1,\"name\":\"Brand\",\"adamId\":111}]}'',
       parsed = Some (JObject [(''data'', JArray [JObject
         [(''id'', JInt 1), (''name'', JString ''Brand''), (''adamId'', JInt 111)]])])\<rparr> =
      Inr [\<lparr>CampaignID = 1, CampaignName = ''Brand'', AdamID = 111\<rparr>]"
    by code_simp
  have f: "firstOwnedCampaign [] [\<lparr>CampaignID = 1, CampaignName = ''Brand'', AdamID = 111\<rparr>] =
      Some (111, ''Brand'')"
    by code_simp
  have t: "TrimSpace ''Brand'' = ''Brand''"
    by code_simp
  have "fst (cmDiscoverOwnedAdamID notOwnedClient tr cookie extraHeaders) = Inr (111, ''Brand'')"
    for tr cookie
    by (simp add: cmDiscoverOwnedAdamID_def cmCampaignsFind_def cmGetJSON_def checkStatus_def
        notOwnedClient_def Let_def p f t)
  then show ?thesis
    unfolding discoverySucceeds_def by blast
qed

theorem C5_fallback_once_per_run_witness:
  "(\<exists>e. fst (recommendLoop notOwnedClient insertionSort True [] ''plant'' 2 10 [''US'', ''GB'']
          ''c=1'' 999 []) = Some e \<and> isCMNoUserOwnedAppsError (Some e)) \<and>
   apiCalls (ls_trace (snd (recommendLoop notOwnedClient insertionSort True [] ''plant'' 2 10
     [''US'', ''GB''] ''c=1'' 999 []))) = 2 \<and>
   discoveryCalls (ls_trace (snd (recommendLoop notOwnedClient insertionSort True [] ''plant'' 2 10
     [''US'', ''GB''] ''c=1'' 999 []))) = 1 \<and>
   fallbacks (ls_trace (snd (recommendLoop notOwnedClient insertionSort True [] ''plant'' 2 10
     [''US'', ''GB''] ''c=1'' 999 []))) = 1 \<and>
   refreshes (ls_trace (snd (recommendLoop notOwnedClient insertionSort True [] ''plant'' 2 10
     [''US'', ''GB''] ''c=1'' 999 []))) = 0"
proof -
  have z: "apiCalls [] = 0" "refreshes [] = 0" "discoveryCalls [] = 0" "fallbacks [] = 0"
    by (simp_all add: apiCalls_def refreshes_def discoveryCalls_def fallbacks_def)
  note T = C5_fallback_once_per_run [where E = notOwnedClient and srt = insertionSort
      and autoCookie = True and extraHeaders = "[]" and seed = "''plant''" and limit = 2
      and minPop = 10 and countries = "[''US'', ''GB'']" and cookie = "''c=1''" and adamID = 999
      and tr = "[]"]
  from T alwaysNotOwned_notOwnedClient [of "[]" "''plant''"]
    discoverySucceeds_notOwnedClient [of "[]"]
  show ?thesis
    by (simp add: Let_def z)
qed

end
